theory Spec2Isabelle
  imports Complex_Main
begin

section \<open>JavaScript values\<close>

text \<open>
  A JavaScript number is only stored, copied and compared here, never computed with, so
  it is modelled as a rational. A value that came out of \<^verbatim>\<open>JSON.parse\<close> or out of
  \<^verbatim>\<open>express.json()\<close> is a \<open>json\<close>; \<^verbatim>\<open>undefined\<close> is \<open>None\<close> of
  \<open>json option\<close>.
\<close>

type_synonym number = rat

datatype json =
    JNull
  | JBool bool
  | JNum number
  | JStr string
  | JArr "json list"
  | JObj "(string \<times> json) list"

datatype js_error = TypeError | SyntaxError

text \<open>
  Property read \<^verbatim>\<open>v.k\<close>, for the keys read in this program (\<^verbatim>\<open>status\<close>,
  \<^verbatim>\<open>gcodeFile\<close>, \<^verbatim>\<open>progress\<close>, \<^verbatim>\<open>power\<close>), none of which is a property of a
  primitive's or an array's prototype: \<^verbatim>\<open>null.k\<close> throws a TypeError, an object
  gives its property or \<^verbatim>\<open>undefined\<close>, anything else gives \<^verbatim>\<open>undefined\<close>.
\<close>

fun get_prop :: "json \<Rightarrow> string \<Rightarrow> js_error + json option" where
  "get_prop JNull k = Inl TypeError"
| "get_prop (JObj kvs) k = Inr (map_of kvs k)"
| "get_prop v k = Inr None"

text \<open>JavaScript truthiness of a value that may be \<^verbatim>\<open>undefined\<close>.\<close>

fun truthy :: "json option \<Rightarrow> bool" where
  "truthy None = False"
| "truthy (Some JNull) = False"
| "truthy (Some (JBool b)) = b"
| "truthy (Some (JNum n)) = (n \<noteq> 0)"
| "truthy (Some (JStr s)) = (s \<noteq> [])"
| "truthy (Some (JArr xs)) = True"
| "truthy (Some (JObj kvs)) = True"

section \<open>The mock backend (server.js)\<close>

text \<open>
  The module's two variables: \<^verbatim>\<open>googleToken\<close> (\<^verbatim>\<open>null\<close> or a string) and
  \<^verbatim>\<open>lightState = { power, color: { r, g, b } }\<close>. The nested object is flattened,
  each field named by its path.
\<close>

record server_state =
  googleToken :: "string option"
  lightState_power :: string
  lightState_color :: "json \<times> json \<times> json"

definition server_init :: server_state where
  "server_init =
     \<lparr> googleToken = None,
       lightState_power = ''off'',
       lightState_color = (JNum 255, JNum 255, JNum 255) \<rparr>"

record response =
  res_status :: nat
  res_json :: json

text \<open>\<^verbatim>\<open>!googleToken\<close>: \<^verbatim>\<open>null\<close> and the empty string are falsy.\<close>

definition no_token :: "server_state \<Rightarrow> bool" where
  "no_token s = (case googleToken s of None \<Rightarrow> True | Some t \<Rightarrow> t = [])"

definition error_body :: "string \<Rightarrow> json" where
  "error_body msg = JObj [(''status'', JStr ''ERROR''), (''message'', JStr msg)]"

definition success_body :: json where
  "success_body = JObj [(''status'', JStr ''SUCCESS'')]"

text \<open>
  \<^verbatim>\<open>app.post('/api/lights/power', ...)\<close> runs in two steps. The handler either
  answers at once (401, 400) or arms a 500 ms timer that holds the validated
  \<^verbatim>\<open>power\<close>; the timer's callback draws \<^verbatim>\<open>Math.random()\<close> and answers.
  \<^verbatim>\<open>const { power } = req.body\<close> reads the property of the parsed body.
\<close>

datatype power_step = Respond response | Deferred string

definition read_power :: "json \<Rightarrow> json option" where
  "read_power body = (case body of JObj kvs \<Rightarrow> map_of kvs ''power'' | _ \<Rightarrow> None)"

definition post_lights_power :: "server_state \<Rightarrow> json \<Rightarrow> server_state \<times> power_step" where
  "post_lights_power s body =
     (if no_token s then
        (s, Respond \<lparr> res_status = 401, res_json = error_body ''Not authenticated'' \<rparr>)
      else
        (let pw = read_power body in
         if pw \<noteq> Some (JStr ''on'') \<and> pw \<noteq> Some (JStr ''off'') then
           (s, Respond \<lparr> res_status = 400, res_json = error_body ''Invalid power state'' \<rparr>)
         else
           (case pw of
              Some (JStr p) \<Rightarrow> (s, Deferred p)
            | _ \<Rightarrow> (s, Respond \<lparr> res_status = 400, res_json = error_body ''Invalid power state'' \<rparr>))))"

text \<open>
  The timer's callback. \<open>rnd\<close> is the value \<^verbatim>\<open>Math.random()\<close> returns. The double
  nearest to 0.95 lies below 19/20 and the next double lies above it, so for every
  double \<open>rnd\<close> the test \<^verbatim>\<open>rnd > 0.95\<close> agrees with \<open>rnd > 19/20\<close>. The callback
  does not look at \<^verbatim>\<open>googleToken\<close> again.
\<close>

definition power_timeout :: "server_state \<Rightarrow> string \<Rightarrow> number \<Rightarrow> server_state \<times> response" where
  "power_timeout s pw rnd =
     (if rnd > 95 / 100 then
        (s, \<lparr> res_status = 500, res_json = error_body ''Failed to execute command'' \<rparr>)
      else
        (s\<lparr> lightState_power := pw \<rparr>, \<lparr> res_status = 200, res_json = success_body \<rparr>))"

text \<open>The whole request, when nothing else touches the server in the 500 ms.\<close>

definition lights_power_request :: "server_state \<Rightarrow> json \<Rightarrow> number \<Rightarrow> server_state \<times> response" where
  "lights_power_request s body rnd =
     (case post_lights_power s body of
        (s1, Respond r) \<Rightarrow> (s1, r)
      | (s1, Deferred p) \<Rightarrow> power_timeout s1 p rnd)"

text \<open>The request bodies and the server states used as concrete inputs below.\<close>

definition body_power :: "string \<Rightarrow> json" where
  "body_power p = JObj [(''power'', JStr p)]"

definition server_authed :: server_state where
  "server_authed = server_init\<lparr> googleToken := Some ''simulated_google_access_token_1'' \<rparr>"

section \<open>The control panel (WorkshopControl): data\<close>

datatype LightConnectionStatus = LightDisconnected | LightConnecting | LightConnected | LightError

text \<open>
  \<^verbatim>\<open>CncStatus\<close> is set from \<^verbatim>\<open>data.status\<close> of an inbound message without a
  check, so at run time it can hold any truthy JSON value: \<open>CncOther\<close>.
\<close>

datatype CncStatus = CncDisconnected | CncConnecting | CncIdle | CncRunning | CncPaused | CncOther json

text \<open>
  \<^verbatim>\<open>interface LightState { power; r; g; b }\<close>. The voice path stores a power that
  was only cast to \<^verbatim>\<open>'on' | 'off'\<close>, so the field is a string.
\<close>

record LightState =
  light_power :: string
  light_r :: number
  light_g :: number
  light_b :: number

text \<open>\<^verbatim>\<open>Partial<LightState>\<close>: an absent key is \<open>None\<close>.\<close>

record PartialLightState =
  new_power :: "string option"
  new_r :: "number option"
  new_g :: "number option"
  new_b :: "number option"

record Camera =
  camera_power :: bool
  camera_recording :: bool

datatype ready_state = CONNECTING | OPEN | CLOSING | CLOSED

record WebSocket =
  ws_url :: string
  readyState :: ready_state
  ws_sent :: "json list"

record fetch_request =
  req_method :: string
  req_url :: string
  req_body :: "json option"
  req_timeout :: nat

text \<open>
  What a render binds in \<^verbatim>\<open>updateLightState\<close>: the \<^verbatim>\<open>useCallback\<close>
  dependencies \<^verbatim>\<open>[lightIpAddress, lightConnectionStatus, isUpdatingLight, lights]\<close>.
  A callback keeps the values of the render that created it.
\<close>

record LightClosure =
  cl_lightIpAddress :: string
  cl_lightConnectionStatus :: LightConnectionStatus
  cl_isUpdatingLight :: bool
  cl_lights :: LightState

record timer =
  timer_id :: nat
  timer_due :: nat
  timer_cl :: LightClosure

datatype audio_op = SessionClose nat | Disconnect nat | ContextClose nat | TracksStop nat

record Transcript =
  tr_id :: nat
  tr_speaker :: string
  tr_text :: string

record tool_response =
  resp_id :: string
  resp_name :: string
  resp_result :: string

text \<open>
  The component's \<^verbatim>\<open>useState\<close> cells and \<^verbatim>\<open>useRef\<close> cells, and what it does to
  the world outside: the clock in milliseconds, the pending timers, the requests sent
  with \<^verbatim>\<open>fetch\<close>, the \<^verbatim>\<open>alert\<close> boxes shown, the console lines, the release
  operations called on audio objects, the sessions whose \<^verbatim>\<open>close\<close> waits on the
  connect promise, the tool responses sent, and the exception a state updater threw
  while the component rendered (the render fails and the component is gone). A browser
  object (a session, a media stream, an audio node or context) is the number it was
  created with.
\<close>

record workshop =
  dustCollectorOn :: bool
  lights :: LightState
  isUpdatingLight :: bool
  lightIpAddress :: string
  lightConnectionStatus :: LightConnectionStatus
  camera :: Camera
  isListening :: bool
  transcripts :: "Transcript list"
  cncStatus :: CncStatus
  gcodeFile :: "json option"
  gcodeProgress :: number
  wsAddress :: string
  sessionPromise :: "nat option"
  mediaStream :: "nat option"
  audioContext :: "nat option"
  scriptProcessor :: "nat option"
  mediaStreamSource :: "nat option"
  websocketRef :: "WebSocket option"
  lightColorTimeoutRef :: "nat option"
  now :: nat
  timers :: "timer list"
  next_id :: nat
  fetches :: "fetch_request list"
  alerts :: "string list"
  console :: "string list"
  audio_ops :: "audio_op list"
  close_requests :: "nat list"
  tool_responses :: "tool_response list"
  render_error :: "js_error option"

text \<open>The state after the first render: the \<^verbatim>\<open>useState\<close> and \<^verbatim>\<open>useRef\<close> initial values.\<close>

definition workshop_init :: workshop where
  "workshop_init =
     \<lparr> dustCollectorOn = False,
       lights = \<lparr> light_power = ''off'', light_r = 255, light_g = 220, light_b = 180 \<rparr>,
       isUpdatingLight = False,
       lightIpAddress = ''http://192.168.1.50'',
       lightConnectionStatus = LightDisconnected,
       camera = \<lparr> camera_power = False, camera_recording = False \<rparr>,
       isListening = False,
       transcripts = [],
       cncStatus = CncDisconnected,
       gcodeFile = None,
       gcodeProgress = 0,
       wsAddress = ''ws://192.168.1.123:8765'',
       sessionPromise = None,
       mediaStream = None,
       audioContext = None,
       scriptProcessor = None,
       mediaStreamSource = None,
       websocketRef = None,
       lightColorTimeoutRef = None,
       now = 0,
       timers = [],
       next_id = 1,
       fetches = [],
       alerts = [],
       console = [],
       audio_ops = [],
       close_requests = [],
       tool_responses = [],
       render_error = None \<rparr>"

definition render :: "workshop \<Rightarrow> LightClosure" where
  "render w =
     \<lparr> cl_lightIpAddress = lightIpAddress w,
       cl_lightConnectionStatus = lightConnectionStatus w,
       cl_isUpdatingLight = isUpdatingLight w,
       cl_lights = lights w \<rparr>"

section \<open>The control panel: smart light\<close>

text \<open>
  \<^verbatim>\<open>String.prototype.trim\<close>. A JavaScript string is modelled by its UTF-8 bytes, so
  a white-space character is the byte sequence of its code point. \<open>white_space\<close> lists
  the code points \<^verbatim>\<open>trim\<close> strips (WhiteSpace and LineTerminator): U+0009 to U+000D,
  U+0020, U+00A0, U+1680, U+2000 to U+200A, U+2028, U+2029, U+202F, U+205F, U+3000 and
  U+FEFF.
\<close>

definition white_space :: "string list" where
  "white_space =
     [[CHR 0x09], [CHR 0x0A], [CHR 0x0B], [CHR 0x0C], [CHR 0x0D], [CHR 0x20],
      [CHR 0xC2, CHR 0xA0],
      [CHR 0xE1, CHR 0x9A, CHR 0x80],
      [CHR 0xE2, CHR 0x80, CHR 0x80], [CHR 0xE2, CHR 0x80, CHR 0x81],
      [CHR 0xE2, CHR 0x80, CHR 0x82], [CHR 0xE2, CHR 0x80, CHR 0x83],
      [CHR 0xE2, CHR 0x80, CHR 0x84], [CHR 0xE2, CHR 0x80, CHR 0x85],
      [CHR 0xE2, CHR 0x80, CHR 0x86], [CHR 0xE2, CHR 0x80, CHR 0x87],
      [CHR 0xE2, CHR 0x80, CHR 0x88], [CHR 0xE2, CHR 0x80, CHR 0x89],
      [CHR 0xE2, CHR 0x80, CHR 0x8A],
      [CHR 0xE2, CHR 0x80, CHR 0xA8], [CHR 0xE2, CHR 0x80, CHR 0xA9],
      [CHR 0xE2, CHR 0x80, CHR 0xAF],
      [CHR 0xE2, CHR 0x81, CHR 0x9F],
      [CHR 0xE3, CHR 0x80, CHR 0x80],
      [CHR 0xEF, CHR 0xBB, CHR 0xBF]]"

text \<open>The number of bytes of the sequence of \<open>seqs\<close> that \<open>s\<close> starts with, 0 if there is none.\<close>

definition lead :: "string list \<Rightarrow> string \<Rightarrow> nat" where
  "lead seqs s =
     (case filter (\<lambda>q. take (length q) s = q) seqs of [] \<Rightarrow> 0 | q # _ \<Rightarrow> length q)"

function trim_start :: "string list \<Rightarrow> string \<Rightarrow> string" where
  "trim_start seqs s =
     (if 0 < lead seqs s \<and> s \<noteq> [] then trim_start seqs (drop (lead seqs s) s) else s)"
  by pat_completeness auto
termination
  by (relation "measure (\<lambda>(seqs, s). length s)") auto

declare trim_start.simps [simp del]

text \<open>The white space at the end is the reversed white space at the start of the
  reversed string.\<close>

definition trim :: "string \<Rightarrow> string" where
  "trim s = rev (trim_start (map rev white_space) (rev (trim_start white_space s)))"

text \<open>The outcome of a \<^verbatim>\<open>fetch\<close>: a response with its status, a rejection by the
  network, or the abort of its \<^verbatim>\<open>AbortSignal.timeout\<close>.\<close>

datatype fetch_outcome = Responded nat | NetworkFailed | TimedOut

fun response_ok :: "fetch_outcome \<Rightarrow> bool" where
  "response_ok (Responded st) = (200 \<le> st \<and> st \<le> 299)"
| "response_ok NetworkFailed = False"
| "response_ok TimedOut = False"

text \<open>\<^verbatim>\<open>{ ...originalState, ...newState }\<close>\<close>

definition spread :: "LightState \<Rightarrow> PartialLightState \<Rightarrow> LightState" where
  "spread st ns =
     \<lparr> light_power = (case new_power ns of Some p \<Rightarrow> p | None \<Rightarrow> light_power st),
       light_r = (case new_r ns of Some v \<Rightarrow> v | None \<Rightarrow> light_r st),
       light_g = (case new_g ns of Some v \<Rightarrow> v | None \<Rightarrow> light_g st),
       light_b = (case new_b ns of Some v \<Rightarrow> v | None \<Rightarrow> light_b st) \<rparr>"

definition color_json :: "LightState \<Rightarrow> json" where
  "color_json st =
     JObj [(''r'', JNum (light_r st)), (''g'', JNum (light_g st)), (''b'', JNum (light_b st))]"

text \<open>The properties of \<^verbatim>\<open>payload\<close>, in the order they are assigned.\<close>

definition payload :: "PartialLightState \<Rightarrow> LightState \<Rightarrow> (string \<times> json) list" where
  "payload ns updatedState =
     (case new_power ns of Some p \<Rightarrow> [(''power'', JStr p)] | None \<Rightarrow> []) @
     (if new_r ns \<noteq> None \<or> new_g ns \<noteq> None \<or> new_b ns \<noteq> None
      then [(''color'', color_json updatedState)] else [])"

definition state_request :: "string \<Rightarrow> (string \<times> json) list \<Rightarrow> fetch_request" where
  "state_request ip pl =
     \<lparr> req_method = ''POST'', req_url = trim ip @ ''/state'',
       req_body = Some (JObj pl), req_timeout = 3000 \<rparr>"

definition light_alert :: string where
  "light_alert = ''Error: Could not control the light. Check IP and network connection.''"

text \<open>
  \<^verbatim>\<open>updateLightState\<close> runs up to its \<^verbatim>\<open>await fetch(...)\<close>, and resumes when
  the fetch settles. \<open>updateLightState_begin\<close> is the first part: it returns
  \<open>Dropped\<close> when the guard returns, \<open>NothingToSend\<close> when the payload is empty
  (the \<^verbatim>\<open>finally\<close> block has run), and \<open>Awaiting originalState\<close> when the request
  is out. \<open>updateLightState_settle\<close> is the second part, run on the state the
  component has by then.
\<close>

datatype light_cmd = Dropped | NothingToSend | Awaiting LightState

definition updateLightState_begin ::
  "LightClosure \<Rightarrow> PartialLightState \<Rightarrow> workshop \<Rightarrow> workshop \<times> light_cmd" where
  "updateLightState_begin cl newState w =
     (if cl_lightConnectionStatus cl \<noteq> LightConnected \<or> cl_isUpdatingLight cl then (w, Dropped)
      else
        (let originalState = cl_lights cl;
             updatedState = spread originalState newState;
             w1 = w\<lparr> lights := updatedState, isUpdatingLight := True \<rparr>;
             pl = payload newState updatedState
         in if pl = [] then (w1\<lparr> isUpdatingLight := False \<rparr>, NothingToSend)
            else (w1\<lparr> fetches := fetches w1 @ [state_request (cl_lightIpAddress cl) pl] \<rparr>,
                  Awaiting originalState)))"

definition updateLightState_settle :: "LightState \<Rightarrow> fetch_outcome \<Rightarrow> workshop \<Rightarrow> workshop" where
  "updateLightState_settle originalState outcome w =
     (let w1 =
        (if response_ok outcome then w
         else w\<lparr> console := console w @ [''Failed to update light state:''],
                alerts := alerts w @ [light_alert],
                lights := originalState,
                lightConnectionStatus := LightError \<rparr>)
      in w1\<lparr> isUpdatingLight := False \<rparr>)"

text \<open>The whole call, when nothing else runs between the request and its outcome.\<close>

definition updateLightState ::
  "LightClosure \<Rightarrow> PartialLightState \<Rightarrow> fetch_outcome \<Rightarrow> workshop \<Rightarrow> workshop" where
  "updateLightState cl newState outcome w =
     (case updateLightState_begin cl newState w of
        (w1, Awaiting originalState) \<Rightarrow> updateLightState_settle originalState outcome w1
      | (w1, _) \<Rightarrow> w1)"

definition handleLightPowerToggle :: "LightClosure \<Rightarrow> workshop \<Rightarrow> workshop \<times> light_cmd" where
  "handleLightPowerToggle cl w =
     updateLightState_begin cl
       \<lparr> new_power = Some (if light_power (cl_lights cl) = ''on'' then ''off'' else ''on''),
         new_r = None, new_g = None, new_b = None \<rparr> w"




subsection \<open>The colour sliders and their debounce timer\<close>

datatype channel = Ch_r | Ch_g | Ch_b

fun set_channel :: "channel \<Rightarrow> number \<Rightarrow> LightState \<Rightarrow> LightState" where
  "set_channel Ch_r v st = st\<lparr> light_r := v \<rparr>"
| "set_channel Ch_g v st = st\<lparr> light_g := v \<rparr>"
| "set_channel Ch_b v st = st\<lparr> light_b := v \<rparr>"

definition clearTimeout :: "nat \<Rightarrow> workshop \<Rightarrow> workshop" where
  "clearTimeout i w = w\<lparr> timers := filter (\<lambda>tm. timer_id tm \<noteq> i) (timers w) \<rparr>"

text \<open>
  \<^verbatim>\<open>setTimeout(f, ms)\<close> for the one callback this component arms: the callback is
  the closure of \<^verbatim>\<open>updateLightState\<close> it will call. Timer ids are positive.
\<close>

definition setTimeout :: "LightClosure \<Rightarrow> nat \<Rightarrow> workshop \<Rightarrow> workshop \<times> nat" where
  "setTimeout cl ms w =
     (w\<lparr> timers := timers w @ [\<lparr> timer_id = next_id w, timer_due = now w + ms, timer_cl = cl \<rparr>],
        next_id := Suc (next_id w) \<rparr>, next_id w)"

text \<open>
  \<^verbatim>\<open>handleLightColorChange(color, value)\<close>. \<open>cl\<close> is the \<^verbatim>\<open>updateLightState\<close>
  of the render that created this handler. \<^verbatim>\<open>if (lightColorTimeoutRef.current)\<close>
  is a truthiness test: \<^verbatim>\<open>null\<close> and 0 do not clear.
\<close>

definition handleLightColorChange :: "LightClosure \<Rightarrow> channel \<Rightarrow> number \<Rightarrow> workshop \<Rightarrow> workshop" where
  "handleLightColorChange cl color v w =
     (let w1 = w\<lparr> lights := set_channel color v (lights w) \<rparr>;
          w2 = (case lightColorTimeoutRef w1 of
                  Some i \<Rightarrow> (if i \<noteq> 0 then clearTimeout i w1 else w1)
                | None \<Rightarrow> w1);
          (w3, i) = setTimeout cl 250 w2
      in w3\<lparr> lightColorTimeoutRef := Some i \<rparr>)"

text \<open>
  The timer's callback: \<^verbatim>\<open>setLights(latestLights => { updateLightState({r, g, b});
  return latestLights; })\<close>. The updater reads the current lights, not the closure's;
  the \<^verbatim>\<open>setLights(updatedState)\<close> made inside it is applied after its own result.
  \<open>light_color_timeout_call\<close> gives the state and the request the call leaves waiting;
  the callback itself does not keep the promise.
\<close>

definition light_color_timeout_call :: "LightClosure \<Rightarrow> workshop \<Rightarrow> workshop \<times> light_cmd" where
  "light_color_timeout_call cl w =
     (let latestLights = lights w
      in updateLightState_begin cl
           \<lparr> new_power = None, new_r = Some (light_r latestLights),
             new_g = Some (light_g latestLights), new_b = Some (light_b latestLights) \<rparr> w)"

definition light_color_timeout :: "LightClosure \<Rightarrow> workshop \<Rightarrow> workshop" where
  "light_color_timeout cl w = fst (light_color_timeout_call cl w)"

text \<open>
  The clock moves to \<open>t\<close>: every timer due by then fires, in the order the timers were
  armed (all delays are equal, so that is the order they are due).
\<close>

definition advance :: "nat \<Rightarrow> workshop \<Rightarrow> workshop" where
  "advance t w =
     foldl (\<lambda>w' tm. light_color_timeout (timer_cl tm) w')
       (w\<lparr> timers := filter (\<lambda>tm. t < timer_due tm) (timers w), now := max (now w) t \<rparr>)
       (filter (\<lambda>tm. timer_due tm \<le> t) (timers w))"

text \<open>
  A run of slider changes, each with the time it happens at: the clock moves to that
  time, the component has rendered, and the handler of that render is called.
\<close>

fun slide :: "(nat \<times> channel \<times> number) list \<Rightarrow> workshop \<Rightarrow> workshop" where
  "slide [] w = w"
| "slide ((t, color, v) # es) w =
     slide es (let w1 = advance t w in handleLightColorChange (render w1) color v w1)"

text \<open>Each change comes less than 250 ms after the one before it, none before \<open>t0\<close>.\<close>

fun within_window :: "nat \<Rightarrow> (nat \<times> channel \<times> number) list \<Rightarrow> bool" where
  "within_window t0 [] = True"
| "within_window t0 ((t, color, v) # es) = (t0 \<le> t \<and> t < t0 + 250 \<and> within_window t es)"


subsection \<open>Concrete states and changes of the light\<close>

definition workshop_connected :: workshop where
  "workshop_connected =
     workshop_init\<lparr> lightConnectionStatus := LightConnected,
       lights := \<lparr> light_power = ''on'', light_r = 255, light_g = 220, light_b = 180 \<rparr> \<rparr>"

definition power_off :: PartialLightState where
  "power_off = \<lparr> new_power = Some ''off'', new_r = None, new_g = None, new_b = None \<rparr>"

text \<open>
  A slider event at 0 ms, then a click on the power button at 100 ms, each handled by the
  render current at its time: the power command is out and not yet answered.
\<close>

definition workshop_race :: workshop where
  "workshop_race =
     (let w1 = slide [(0, Ch_r, 10)] workshop_connected;
          w2 = advance 100 w1
      in fst (handleLightPowerToggle (render w2) w2))"

text \<open>
  The red slider is dragged from 255 to 100 (0 ms) and on to 10 (100 ms), each event
  handled by the render current at its time; the timer of the second event is pending.
\<close>

definition workshop_two_slides :: workshop where
  "workshop_two_slides = slide [(0, Ch_r, 100), (100, Ch_r, 10)] workshop_connected"

text \<open>The \<^verbatim>\<open>updateLightState\<close> the second event's timer keeps: the one of the render
  after the first event.\<close>

definition closure_after_first_slide :: LightClosure where
  "closure_after_first_slide =
     \<lparr> cl_lightIpAddress = ''http://192.168.1.50'',
       cl_lightConnectionStatus = LightConnected,
       cl_isUpdatingLight = False,
       cl_lights = \<lparr> light_power = ''on'', light_r = 100, light_g = 220, light_b = 180 \<rparr> \<rparr>"


subsection \<open>The debounce: what a run of changes settles to\<close>

fun settled_lights :: "LightState \<Rightarrow> (nat \<times> channel \<times> number) list \<Rightarrow> LightState" where
  "settled_lights st [] = st"
| "settled_lights st ((t, color, v) # es) = settled_lights (set_channel color v st) es"

fun last_time :: "nat \<Rightarrow> (nat \<times> channel \<times> number) list \<Rightarrow> nat" where
  "last_time t0 [] = t0"
| "last_time t0 ((t, color, v) # es) = last_time t es"

text \<open>
  The state between two slider changes: timer ids are positive, and the only timer
  pending, if any, is the one \<^verbatim>\<open>lightColorTimeoutRef\<close> holds, armed at the current
  time by a render with the current address, status and updating flag.
\<close>

definition one_pending :: "workshop \<Rightarrow> bool" where
  "one_pending w =
     (next_id w \<noteq> 0 \<and>
      (case timers w of
         [] \<Rightarrow> True
       | tm # rest \<Rightarrow>
           rest = [] \<and> lightColorTimeoutRef w = Some (timer_id tm) \<and> timer_id tm \<noteq> 0 \<and>
           timer_due tm = now w + 250 \<and>
           cl_lightConnectionStatus (timer_cl tm) = lightConnectionStatus w \<and>
           cl_isUpdatingLight (timer_cl tm) = isUpdatingLight w \<and>
           cl_lightIpAddress (timer_cl tm) = lightIpAddress w))"

text \<open>The spec's scenario: the colour goes to (10,20,30) at 0 ms and to (40,50,60) at
  100 ms, one slider event for each channel.\<close>

definition scenario_changes :: "(nat \<times> channel \<times> number) list" where
  "scenario_changes =
     [(0, Ch_r, 10), (0, Ch_g, 20), (0, Ch_b, 30), (100, Ch_r, 40), (100, Ch_g, 50), (100, Ch_b, 60)]"


section \<open>The control panel: CNC bridge\<close>

definition status_of_json :: "json \<Rightarrow> CncStatus" where
  "status_of_json v =
     (if v = JStr ''Disconnected'' then CncDisconnected
      else if v = JStr ''Connecting'' then CncConnecting
      else if v = JStr ''Idle'' then CncIdle
      else if v = JStr ''Running'' then CncRunning
      else if v = JStr ''Paused'' then CncPaused
      else CncOther v)"



text \<open>
  The \<^verbatim>\<open>try\<close> block of \<^verbatim>\<open>onmessage\<close>. \<open>JSON_parse\<close> is the built-in. A throw
  (\<open>Inl\<close>) happens at the parse or at the first property read, before any state is set.
\<close>

definition onmessage_try ::
  "(string \<Rightarrow> js_error + json) \<Rightarrow> string \<Rightarrow> workshop \<Rightarrow> js_error + workshop" where
  "onmessage_try JSON_parse data w =
     (case JSON_parse data of
        Inl e \<Rightarrow> Inl e
      | Inr d \<Rightarrow>
          (case get_prop d ''status'' of
             Inl e \<Rightarrow> Inl e
           | Inr st \<Rightarrow>
               (let w1 = (case st of
                            Some v \<Rightarrow> (if truthy st then w\<lparr> cncStatus := status_of_json v \<rparr> else w)
                          | None \<Rightarrow> w)
                in case get_prop d ''gcodeFile'' of
                     Inl e \<Rightarrow> Inl e
                   | Inr f \<Rightarrow>
                       (let w2 = (if truthy f then w1\<lparr> gcodeFile := f \<rparr> else w1)
                        in case get_prop d ''progress'' of
                             Inl e \<Rightarrow> Inl e
                           | Inr p \<Rightarrow>
                               Inr (case p of
                                      Some (JNum n) \<Rightarrow> w2\<lparr> gcodeProgress := n \<rparr>
                                    | _ \<Rightarrow> w2)))))"

text \<open>
  \<^verbatim>\<open>websocketRef.current.onmessage\<close>: the \<^verbatim>\<open>try\<close> block and its \<^verbatim>\<open>catch\<close>, which
  writes one console line. The result is \<open>Inl\<close> when an exception leaves the handler.
\<close>

definition ws_onmessage ::
  "(string \<Rightarrow> js_error + json) \<Rightarrow> string \<Rightarrow> workshop \<Rightarrow> js_error + workshop" where
  "ws_onmessage JSON_parse data w =
     (case onmessage_try JSON_parse data w of
        Inl e \<Rightarrow> Inr (w\<lparr> console := console w @ [''Failed to parse incoming WebSocket message:''] \<rparr>)
      | Inr w' \<Rightarrow> Inr w')"

definition ws_onerror :: "workshop \<Rightarrow> workshop" where
  "ws_onerror w =
     w\<lparr> console := console w @ [''WebSocket error:''], cncStatus := CncDisconnected \<rparr>"

definition ws_onclose :: "workshop \<Rightarrow> workshop" where
  "ws_onclose w =
     w\<lparr> console := console w @ [''WebSocket connection closed.''],
        cncStatus := CncDisconnected,
        gcodeFile := None,
        gcodeProgress := 0,
        websocketRef := None \<rparr>"

text \<open>\<^verbatim>\<open>websocketRef.current?.close()\<close>: the socket starts closing.\<close>

definition disconnectUCCNC :: "workshop \<Rightarrow> workshop" where
  "disconnectUCCNC w =
     w\<lparr> websocketRef := map_option (\<lambda>ws. ws\<lparr> readyState := CLOSING \<rparr>) (websocketRef w) \<rparr>"

text \<open>The message sent is the object \<^verbatim>\<open>{ command }\<close> that is stringified.\<close>

definition sendCncCommand :: "string \<Rightarrow> workshop \<Rightarrow> workshop" where
  "sendCncCommand command w =
     (case websocketRef w of
        Some ws \<Rightarrow>
          (if readyState ws = OPEN
           then w\<lparr> websocketRef := Some (ws\<lparr> ws_sent := ws_sent ws @ [JObj [(''command'', JStr command)]] \<rparr>) \<rparr>
           else w)
      | None \<Rightarrow> w)"

definition handleCncPlay :: "workshop \<Rightarrow> workshop" where
  "handleCncPlay = sendCncCommand ''play''"

definition handleCncPause :: "workshop \<Rightarrow> workshop" where
  "handleCncPause = sendCncCommand ''pause''"

definition handleCncStop :: "workshop \<Rightarrow> workshop" where
  "handleCncStop = sendCncCommand ''stop''"

text \<open>The messages sent on the socket the component holds, if it holds one.\<close>

definition cnc_sent :: "workshop \<Rightarrow> json list" where
  "cnc_sent w = (case websocketRef w of Some ws \<Rightarrow> ws_sent ws | None \<Rightarrow> [])"

subsection \<open>Concrete inputs of the CNC bridge\<close>

text \<open>A stand-in for \<^verbatim>\<open>JSON.parse\<close> that knows three texts.\<close>

definition toy_parse :: "string \<Rightarrow> js_error + json" where
  "toy_parse s =
     (if s = ''{}'' then Inr (JObj [])
      else if s = ''null'' then Inr JNull
      else if s = ''42'' then Inr (JNum 42)
      else Inl SyntaxError)"

definition workshop_cnc_running :: workshop where
  "workshop_cnc_running =
     workshop_init\<lparr> cncStatus := CncRunning, gcodeFile := Some (JStr ''part.nc''), gcodeProgress := 40,
       websocketRef := Some \<lparr> ws_url = ''ws://192.168.1.123:8765'', readyState = OPEN, ws_sent = [] \<rparr> \<rparr>"


section \<open>The control panel: voice assistant\<close>

text \<open>
  What the callbacks given to \<^verbatim>\<open>ai.live.connect\<close> keep from the render whose
  \<^verbatim>\<open>startConversation\<close> created them: the \<^verbatim>\<open>isListening\<close> bound by that
  render's \<^verbatim>\<open>stopConversation\<close>, the \<^verbatim>\<open>updateLightState\<close> behind
  \<^verbatim>\<open>applyLightStateFromVoice\<close>, the output audio context and the local
  \<^verbatim>\<open>currentInputTranscription\<close>.
\<close>

record session_env =
  env_isListening :: bool
  env_light :: LightClosure
  env_output :: nat
  currentInputTranscription :: string

text \<open>
  \<^verbatim>\<open>stopConversation\<close> binds \<^verbatim>\<open>[isListening]\<close>. Each \<^verbatim>\<open>?.\<close> call is made when
  the ref holds an object. \<^verbatim>\<open>session.close()\<close> is not called here: it is the
  callback given to \<^verbatim>\<open>sessionPromise.current.then\<close>, so it waits on the connect
  promise.
\<close>

definition stopConversation :: "bool \<Rightarrow> workshop \<Rightarrow> workshop" where
  "stopConversation cl_isListening w =
     (if \<not> cl_isListening then w
      else
        (let w1 = (case sessionPromise w of
                     Some s \<Rightarrow> w\<lparr> close_requests := close_requests w @ [s], sessionPromise := None \<rparr>
                   | None \<Rightarrow> w);
             w2 = (case scriptProcessor w1 of
                     Some n \<Rightarrow> w1\<lparr> audio_ops := audio_ops w1 @ [Disconnect n] \<rparr>
                   | None \<Rightarrow> w1);
             w3 = (case mediaStreamSource w2 of
                     Some n \<Rightarrow> w2\<lparr> audio_ops := audio_ops w2 @ [Disconnect n] \<rparr>
                   | None \<Rightarrow> w2);
             w4 = (case audioContext w3 of
                     Some c \<Rightarrow> w3\<lparr> audio_ops := audio_ops w3 @ [ContextClose c] \<rparr>
                   | None \<Rightarrow> w3);
             w5 = (case mediaStream w4 of
                     Some m \<Rightarrow> w4\<lparr> audio_ops := audio_ops w4 @ [TracksStop m] \<rparr>
                   | None \<Rightarrow> w4)
         in w5\<lparr> scriptProcessor := None, mediaStreamSource := None, audioContext := None,
                mediaStream := None, isListening := False \<rparr>))"

text \<open>
  The connect promise of session \<open>s\<close> is fulfilled (it fulfils now, or it had fulfilled
  and the handler that asked has returned): the callbacks waiting on it run, and each
  calls \<^verbatim>\<open>session.close()\<close>. If the promise is rejected they never run.
\<close>

definition connect_fulfilled :: "nat \<Rightarrow> workshop \<Rightarrow> workshop" where
  "connect_fulfilled s w =
     w\<lparr> audio_ops := audio_ops w @ map SessionClose (filter (\<lambda>x. x = s) (close_requests w)),
        close_requests := filter (\<lambda>x. x \<noteq> s) (close_requests w) \<rparr>"

definition key_missing :: "string option \<Rightarrow> bool" where
  "key_missing apiKey = (case apiKey of None \<Rightarrow> True | Some k \<Rightarrow> k = [])"

text \<open>
  \<^verbatim>\<open>startConversation\<close>, up to the call of \<^verbatim>\<open>ai.live.connect\<close>. It creates the
  output audio context and the session, and returns the environment of the session's
  callbacks. The \<^verbatim>\<open>stopConversation\<close> they call is the one of the same render, so it
  binds the same \<^verbatim>\<open>isListening\<close> as this call.
\<close>

definition startConversation ::
  "bool \<Rightarrow> string option \<Rightarrow> LightClosure \<Rightarrow> workshop \<Rightarrow> workshop \<times> session_env option" where
  "startConversation cl_isListening apiKey cl w =
     (if cl_isListening \<or> key_missing apiKey then
        ((if key_missing apiKey
          then w\<lparr> alerts := alerts w @ [''Please set your Gemini API key to use the voice assistant.''] \<rparr>
          else w), None)
      else
        (w\<lparr> isListening := True, transcripts := [],
            sessionPromise := Some (Suc (next_id w)), next_id := next_id w + 2 \<rparr>,
         Some \<lparr> env_isListening = cl_isListening, env_light = cl, env_output = next_id w,
                currentInputTranscription = [] \<rparr>))"

definition mic_alert :: string where
  "mic_alert = ''Could not access the microphone at the required sample rate (16000Hz). Please check permissions and that your device supports this sample rate.''"

text \<open>The \<^verbatim>\<open>catch\<close> block of \<^verbatim>\<open>onopen\<close>.\<close>

definition onopen_catch :: "session_env \<Rightarrow> workshop \<Rightarrow> workshop" where
  "onopen_catch env w =
     stopConversation (env_isListening env)
       (w\<lparr> console := console w @ [''Error initializing audio input:''],
          alerts := alerts w @ [mic_alert] \<rparr>)"

text \<open>
  \<^verbatim>\<open>onopen\<close> up to its \<^verbatim>\<open>await getUserMedia\<close>: the input audio context is
  created (\<open>ctx_ok\<close>: the constructor did not throw). The result says whether the
  callback is now waiting for the microphone.
\<close>

definition session_onopen_begin :: "session_env \<Rightarrow> bool \<Rightarrow> workshop \<Rightarrow> workshop \<times> bool" where
  "session_onopen_begin env ctx_ok w =
     (let w0 = w\<lparr> console := console w @ [''Session opened.''] \<rparr>
      in if \<not> ctx_ok then (onopen_catch env w0, False)
         else (w0\<lparr> audioContext := Some (next_id w0), next_id := Suc (next_id w0) \<rparr>, True))"

text \<open>
  \<^verbatim>\<open>onopen\<close> after the \<^verbatim>\<open>await\<close>: \<open>granted\<close> says whether the microphone was
  given. The stream is stored, and the nodes are made from \<^verbatim>\<open>audioContext.current\<close>;
  if that ref is \<^verbatim>\<open>null\<close> by then, the read throws and the \<^verbatim>\<open>catch\<close> block runs.
\<close>

definition session_onopen_resume :: "session_env \<Rightarrow> bool \<Rightarrow> workshop \<Rightarrow> workshop" where
  "session_onopen_resume env granted w =
     (if \<not> granted then onopen_catch env w
      else
        (let w1 = w\<lparr> mediaStream := Some (next_id w), next_id := Suc (next_id w) \<rparr>
         in case audioContext w1 of
              None \<Rightarrow> onopen_catch env w1
            | Some c \<Rightarrow>
                w1\<lparr> mediaStreamSource := Some (next_id w1),
                    scriptProcessor := Some (Suc (next_id w1)),
                    next_id := next_id w1 + 2 \<rparr>))"

definition session_onerror :: "workshop \<Rightarrow> workshop" where
  "session_onerror w = w\<lparr> console := console w @ [''Session error:''] \<rparr>"

definition session_onclose :: "workshop \<Rightarrow> workshop" where
  "session_onclose w = w\<lparr> console := console w @ [''Session closed.''] \<rparr>"

definition addTranscript :: "string \<Rightarrow> string \<Rightarrow> workshop \<Rightarrow> workshop" where
  "addTranscript speaker text w =
     (if trim text = [] then w
      else w\<lparr> transcripts := transcripts w @
                [\<lparr> tr_id = now w, tr_speaker = speaker, tr_text = text \<rparr>] \<rparr>)"

subsection \<open>Tool calls\<close>

text \<open>
  The arguments of a function call, with the keys and the types the function
  declarations give them (\<^verbatim>\<open>power\<close>: STRING, \<^verbatim>\<open>r\<close>, \<^verbatim>\<open>g\<close>, \<^verbatim>\<open>b\<close>: NUMBER,
  \<^verbatim>\<open>recording\<close>: BOOLEAN); the handler casts them without a check. \<open>fc_args\<close> is
  \<open>None\<close> when the call carries no \<^verbatim>\<open>args\<close>.
\<close>

record tool_args =
  arg_power :: "string option"
  arg_r :: "number option"
  arg_g :: "number option"
  arg_b :: "number option"
  arg_recording :: "bool option"

record FunctionCall =
  fc_id :: string
  fc_name :: string
  fc_args :: "tool_args option"

text \<open>
  The \<^verbatim>\<open>try\<close> block of one function call. For \<^verbatim>\<open>controlDustCollector\<close> and
  \<^verbatim>\<open>controlLights\<close>, reading a property of an absent \<^verbatim>\<open>args\<close> throws inside the
  block, before any write. For \<^verbatim>\<open>controlCamera\<close> the properties are read inside the
  updater given to \<^verbatim>\<open>setCamera\<close>, which runs when the component renders, outside the
  block: with no \<^verbatim>\<open>args\<close> the block ends normally and the render throws.
  \<^verbatim>\<open>applyLightStateFromVoice\<close> starts \<^verbatim>\<open>updateLightState\<close> with the closure the
  session keeps and does not wait for it.
\<close>

definition function_call_try :: "session_env \<Rightarrow> FunctionCall \<Rightarrow> workshop \<Rightarrow> js_error + workshop" where
  "function_call_try env fc w =
     (if fc_name fc = ''controlDustCollector'' then
        (case fc_args fc of
           None \<Rightarrow> Inl TypeError
         | Some a \<Rightarrow> Inr (w\<lparr> dustCollectorOn := (arg_power a = Some ''on'') \<rparr>))
      else if fc_name fc = ''controlLights'' then
        (case fc_args fc of
           None \<Rightarrow> Inl TypeError
         | Some a \<Rightarrow>
             Inr (fst (updateLightState_begin (env_light env)
                    \<lparr> new_power = arg_power a, new_r = arg_r a, new_g = arg_g a, new_b = arg_b a \<rparr> w)))
      else if fc_name fc = ''controlCamera'' then
        (case fc_args fc of
           None \<Rightarrow> Inr (w\<lparr> render_error := Some TypeError \<rparr>)
         | Some a \<Rightarrow>
             Inr (w\<lparr> camera :=
                    \<lparr> camera_power = (case arg_power a of Some p \<Rightarrow> p = ''on''
                                      | None \<Rightarrow> camera_power (camera w)),
                      camera_recording = (case arg_recording a of Some rec \<Rightarrow> rec
                                          | None \<Rightarrow> camera_recording (camera w)) \<rparr> \<rparr>))
      else if fc_name fc = ''startCncCycle'' then Inr (handleCncPlay w)
      else if fc_name fc = ''pauseCncCycle'' then Inr (handleCncPause w)
      else if fc_name fc = ''stopCncCycle'' then Inr (handleCncStop w)
      else Inr w)"

definition handle_function_call :: "session_env \<Rightarrow> FunctionCall \<Rightarrow> workshop \<Rightarrow> workshop" where
  "handle_function_call env fc w =
     (let (w1, result) =
        (case function_call_try env fc w of
           Inl e \<Rightarrow> (w, ''error executing function'')
         | Inr w' \<Rightarrow> (w', ''ok''))
      in if sessionPromise w1 \<noteq> None
         then w1\<lparr> tool_responses := tool_responses w1 @
                    [\<lparr> resp_id = fc_id fc, resp_name = fc_name fc, resp_result = result \<rparr>] \<rparr>
         else w1)"

text \<open>
  A server message, as far as \<^verbatim>\<open>onmessage\<close> reads it for the transcript and the tool
  calls. The playback of \<^verbatim>\<open>modelTurn\<close> audio works on the output context alone and is
  left out.
\<close>

record LiveServerMessage =
  inputTranscription :: "string option"
  turnComplete :: bool
  toolCall :: "FunctionCall list option"

definition session_onmessage ::
  "session_env \<Rightarrow> LiveServerMessage \<Rightarrow> workshop \<Rightarrow> session_env \<times> workshop" where
  "session_onmessage env msg w =
     (let env1 = (case inputTranscription msg of
                    Some t \<Rightarrow> env\<lparr> currentInputTranscription := currentInputTranscription env @ t \<rparr>
                  | None \<Rightarrow> env);
          (env2, w1) =
            (if turnComplete msg
             then (env1\<lparr> currentInputTranscription := [] \<rparr>,
                   addTranscript ''user'' (currentInputTranscription env1) w)
             else (env1, w));
          w2 = (case toolCall msg of
                  Some fcs \<Rightarrow> foldl (\<lambda>w' fc. handle_function_call env fc w') w1 fcs
                | None \<Rightarrow> w1)
      in (env2, w2))"

section \<open>The control panel: camera and dust collector\<close>






section \<open>The control panel: every handler outside the light's reconciler\<close>







definition opt_list :: "'a option \<Rightarrow> 'a list" where
  "opt_list x = (case x of Some a \<Rightarrow> [a] | None \<Rightarrow> [])"

subsection \<open>Concrete inputs of the voice assistant\<close>

definition voice_env :: session_env where
  "voice_env =
     \<lparr> env_isListening = False, env_light = render workshop_init, env_output = 1,
       currentInputTranscription = [] \<rparr>"

text \<open>A conversation was started from the initial state, the session opened and the
  microphone was given.\<close>

definition workshop_listening :: workshop where
  "workshop_listening =
     session_onopen_resume voice_env True
       (fst (session_onopen_begin voice_env True
          (fst (startConversation False (Some ''key'') (render workshop_init) workshop_init))))"

text \<open>A conversation was started from the initial state, the session opened and the
  microphone was refused.\<close>

definition workshop_mic_refused :: workshop where
  "workshop_mic_refused =
     session_onopen_resume voice_env False
       (fst (session_onopen_begin voice_env True
          (fst (startConversation False (Some ''key'') (render workshop_init) workshop_init))))"


definition turn_complete_msg :: LiveServerMessage where
  "turn_complete_msg = \<lparr> inputTranscription = Some ''lights on'', turnComplete = True, toolCall = None \<rparr>"


section \<open>The network scanner (NetworkScanner)\<close>

text \<open>The decimal digits of a number, as the template literal \<^verbatim>\<open>`${scanIpBase}.${i}`\<close>
  writes it.\<close>

definition digit_char :: "nat \<Rightarrow> char" where
  "digit_char d = char_of (48 + d)"

function show_nat :: "nat \<Rightarrow> string" where
  "show_nat n = (if n < 10 then [digit_char n] else show_nat (n div 10) @ [digit_char (n mod 10)])"
  by pat_completeness auto
termination
  by (relation "measure id") auto

declare show_nat.simps [simp del]

definition address :: "string \<Rightarrow> nat \<Rightarrow> string" where
  "address base i = base @ ''.'' @ show_nat i"

definition status_url :: "string \<Rightarrow> nat \<Rightarrow> string" where
  "status_url base i = ''http://'' @ address base i @ ''/status''"

text \<open>
  One iteration of the loop makes one \<^verbatim>\<open>fetch\<close> with its own abort controller and its
  own 1500 ms timer. A probe is that fetch: its address, the state of its promise
  (\<open>Fulfilled ok\<close> carries \<^verbatim>\<open>response.ok\<close>) and the time its timer is due.
\<close>

datatype probe_state = Pending | Fulfilled bool | Rejected

record probe =
  probe_ip :: string
  probe_state :: probe_state
  probe_due :: nat

text \<open>
  The scanner's state cells, \<^verbatim>\<open>scanAbortControllerRef\<close> (\<open>None\<close> for \<^verbatim>\<open>null\<close>, else
  whether the controller's signal is aborted), whether \<^verbatim>\<open>onGlobalAbort\<close> is registered
  on that signal, the probes of the sweep, the clock and the URLs requested so far.
\<close>

record scanner =
  scanIpBase :: string
  isScanning :: bool
  scanProgress :: nat
  scanResults :: "string list"
  scanAbortControllerRef :: "bool option"
  listening :: bool
  probes :: "probe list"
  scan_now :: nat
  scan_fetches :: "string list"

definition scanner_init :: scanner where
  "scanner_init =
     \<lparr> scanIpBase = ''192.168.1'', isScanning = False, scanProgress = 0, scanResults = [],
       scanAbortControllerRef = None, listening = False, probes = [], scan_now = 0,
       scan_fetches = [] \<rparr>"

definition pending :: "scanner \<Rightarrow> probe list" where
  "pending s = filter (\<lambda>p. probe_state p = Pending) (probes s)"

text \<open>
  \<^verbatim>\<open>handleStartScan\<close> up to its \<^verbatim>\<open>await\<close>: the loop runs from 1 to 254 without
  yielding, so all probes are out when it ends. The button offers it only while
  \<^verbatim>\<open>isScanning\<close> is false, when no probe of an earlier sweep is pending; the probes of
  the new sweep take the place of the old ones.
\<close>

definition handleStartScan :: "scanner \<Rightarrow> scanner" where
  "handleStartScan s =
     s\<lparr> isScanning := True, scanProgress := 0, scanResults := [],
        scanAbortControllerRef := Some False, listening := True,
        probes := map (\<lambda>i. \<lparr> probe_ip = address (scanIpBase s) i, probe_state = Pending,
                              probe_due = scan_now s + 1500 \<rparr>) [1..<255],
        scan_fetches := scan_fetches s @ map (status_url (scanIpBase s)) [1..<255] \<rparr>"

text \<open>
  The \<open>i\<close>-th fetch settles with \<open>st\<close>: \<^verbatim>\<open>then\<close> adds the address when the response
  is ok, \<^verbatim>\<open>catch\<close> ignores a rejection, \<^verbatim>\<open>finally\<close> clears the timer and counts. A
  promise settles once.
\<close>

definition settle_probe :: "nat \<Rightarrow> probe_state \<Rightarrow> scanner \<Rightarrow> scanner" where
  "settle_probe i st s =
     (if i < length (probes s) \<and> probe_state (probes s ! i) = Pending then
        s\<lparr> probes := (probes s)[i := (probes s ! i)\<lparr> probe_state := st \<rparr>],
           scanResults := (if st = Fulfilled True then scanResults s @ [probe_ip (probes s ! i)]
                           else scanResults s),
           scanProgress := Suc (scanProgress s) \<rparr>
      else s)"

text \<open>The controllers of the pending probes that satisfy \<open>P\<close> abort: their fetches reject.\<close>

definition abort_where :: "(probe \<Rightarrow> bool) \<Rightarrow> scanner \<Rightarrow> scanner" where
  "abort_where P s =
     s\<lparr> probes := map (\<lambda>p. if probe_state p = Pending \<and> P p then p\<lparr> probe_state := Rejected \<rparr> else p)
                    (probes s),
        scanProgress := scanProgress s + length (filter (\<lambda>p. probe_state p = Pending \<and> P p) (probes s)) \<rparr>"

text \<open>\<^verbatim>\<open>Promise.allSettled\<close> resolves when no probe is pending, and the \<^verbatim>\<open>finally\<close>
  block of \<^verbatim>\<open>handleStartScan\<close> runs, once.\<close>

definition all_settled :: "scanner \<Rightarrow> scanner" where
  "all_settled s =
     (if listening s \<and> pending s = [] then s\<lparr> listening := False, isScanning := False \<rparr> else s)"

text \<open>
  \<^verbatim>\<open>handleStopScan\<close>: \<^verbatim>\<open>abort()\<close> on a controller that is not yet aborted fires the
  signal's listeners, here \<^verbatim>\<open>onGlobalAbort\<close> if it is still registered, which aborts
  every probe's controller.
\<close>

definition handleStopScan :: "scanner \<Rightarrow> scanner" where
  "handleStopScan s =
     (let s1 = (case scanAbortControllerRef s of
                  Some False \<Rightarrow>
                    (let s' = s\<lparr> scanAbortControllerRef := Some True \<rparr>
                     in if listening s' then abort_where (\<lambda>p. True) s' else s')
                | _ \<Rightarrow> s)
      in s1\<lparr> isScanning := False \<rparr>)"

text \<open>
  What happens after the sweep has started: a probe is answered (with \<^verbatim>\<open>response.ok\<close>),
  a probe fails in the network, the clock moves (the timers due abort their probes), or
  the user clicks Stop.
\<close>

datatype scan_event = ProbeResponse nat bool | ProbeError nat | Clock nat | StopClick

fun scan_step :: "scan_event \<Rightarrow> scanner \<Rightarrow> scanner" where
  "scan_step (ProbeResponse i ok) s = all_settled (settle_probe i (Fulfilled ok) s)"
| "scan_step (ProbeError i) s = all_settled (settle_probe i Rejected s)"
| "scan_step (Clock t) s =
     (let s1 = s\<lparr> scan_now := max (scan_now s) t \<rparr>
      in all_settled (abort_where (\<lambda>p. probe_due p \<le> scan_now s1) s1))"
| "scan_step StopClick s = all_settled (handleStopScan s)"

fun scan_run :: "scan_event list \<Rightarrow> scanner \<Rightarrow> scanner" where
  "scan_run [] s = s"
| "scan_run (e # es) s = scan_run es (scan_step e s)"

text \<open>The addresses whose probe was answered with an ok response.\<close>

definition answered_ok :: "scanner \<Rightarrow> string set" where
  "answered_ok s = probe_ip ` {p \<in> set (probes s). probe_state p = Fulfilled True}"

text \<open>Reading the digits back, to tell two addresses apart.\<close>

definition read_nat :: "string \<Rightarrow> nat" where
  "read_nat s = foldl (\<lambda>acc c. 10 * acc + (of_char c - 48)) 0 s"

text \<open>
  What holds all through a sweep started at time \<open>t0\<close>: while a probe is pending the
  abort signal is not yet fired and \<^verbatim>\<open>onGlobalAbort\<close> is registered; the scanner shows
  scanning only while \<^verbatim>\<open>handleStartScan\<close> is still waiting; the results are the
  addresses answered ok; every pending probe's timer is still ahead, and every timer is
  due 1500 ms after the start. Between two events, \<^verbatim>\<open>handleStartScan\<close> waits only
  while a probe is pending.
\<close>

definition scan_pre :: "nat \<Rightarrow> scanner \<Rightarrow> bool" where
  "scan_pre t0 s =
     ((pending s \<noteq> [] \<longrightarrow> scanAbortControllerRef s = Some False \<and> listening s) \<and>
      (isScanning s \<longrightarrow> listening s) \<and>
      set (scanResults s) = answered_ok s \<and>
      (\<forall>p \<in> set (pending s). scan_now s < probe_due p) \<and>
      (\<forall>p \<in> set (probes s). probe_due p = t0 + 1500))"

definition scan_inv :: "nat \<Rightarrow> scanner \<Rightarrow> bool" where
  "scan_inv t0 s = (scan_pre t0 s \<and> (pending s = [] \<longrightarrow> \<not> listening s))"

subsection \<open>The results, read off the events\<close>

text \<open>
  The claim about the results, in its own words and on the events alone, with no
  scanner state: probe number \<open>i\<close> (counted from 0, the probe of \<^verbatim>\<open>base.(i+1)\<close>) is in
  the results when the first thing that happens to it is an ok response, and that
  response comes before the Stop click and before the clock reaches the timeout, 1500 ms
  after the start \<open>t0\<close>. \<open>settled\<close> are the probes that have had their outcome,
  \<open>halted\<close> says that the click or the timeout has happened. The answers are listed in
  the order the responses come.
\<close>

fun ok_answers :: "nat \<Rightarrow> nat set \<Rightarrow> bool \<Rightarrow> scan_event list \<Rightarrow> nat list" where
  "ok_answers t0 settled halted [] = []"
| "ok_answers t0 settled halted (ProbeResponse i ok # es) =
     (if i < 254 \<and> i \<notin> settled \<and> \<not> halted \<and> ok then [i] else []) @
     ok_answers t0 (insert i settled) halted es"
| "ok_answers t0 settled halted (ProbeError i # es) = ok_answers t0 (insert i settled) halted es"
| "ok_answers t0 settled halted (Clock t # es) =
     ok_answers t0 settled (halted \<or> t0 + 1500 \<le> t) es"
| "ok_answers t0 settled halted (StopClick # es) = ok_answers t0 settled True es"

text \<open>
  How the scanner's state follows that reading: a probe is pending exactly when it has
  had no outcome and nothing has halted the sweep, and until then the clock is before
  the timeout.
\<close>

definition tracks :: "nat \<Rightarrow> nat set \<Rightarrow> bool \<Rightarrow> scanner \<Rightarrow> bool" where
  "tracks t0 settled halted s =
     ((\<forall>i < length (probes s). (probe_state (probes s ! i) = Pending) = (\<not> halted \<and> i \<notin> settled)) \<and>
      (\<not> halted \<longrightarrow> scan_now s < t0 + 1500))"

subsection \<open>Concrete inputs of the scanner\<close>

text \<open>
  The probe of \<^verbatim>\<open>.7\<close> is answered ok, the probe of \<^verbatim>\<open>.8\<close> is answered not ok, the
  probe of \<^verbatim>\<open>.9\<close> fails, the probe of \<^verbatim>\<open>.1\<close> is answered ok, the timeout passes, and
  a response for \<^verbatim>\<open>.10\<close> is put after it.
\<close>

definition sweep_events :: "scan_event list" where
  "sweep_events =
     [ProbeResponse 6 True, ProbeResponse 7 False, ProbeError 8, ProbeResponse 0 True,
      Clock 1500, ProbeResponse 9 True]"


section \<open>The mock backend: results\<close>

lemma post_lights_power_unauth:
  "no_token s \<Longrightarrow>
   post_lights_power s body =
     (s, Respond \<lparr> res_status = 401, res_json = error_body ''Not authenticated'' \<rparr>)"
  by (simp add: post_lights_power_def)

lemma post_lights_power_valid:
  "\<not> no_token s \<Longrightarrow> read_power body = Some (JStr p) \<Longrightarrow> p = ''on'' \<or> p = ''off'' \<Longrightarrow>
   post_lights_power s body = (s, Deferred p)"
  by (auto simp: post_lights_power_def)

lemma post_lights_power_invalid:
  "\<not> no_token s \<Longrightarrow> read_power body \<noteq> Some (JStr ''on'') \<Longrightarrow>
   read_power body \<noteq> Some (JStr ''off'') \<Longrightarrow>
   post_lights_power s body =
     (s, Respond \<lparr> res_status = 400, res_json = error_body ''Invalid power state'' \<rparr>)"
  by (simp add: post_lights_power_def)

lemma post_lights_power_state: "fst (post_lights_power s body) = s"
  by (simp add: post_lights_power_def Let_def split: option.splits json.splits)

lemma power_timeout_changes:
  "fst (power_timeout s p rnd) \<noteq> s \<Longrightarrow>
   power_timeout s p rnd = (s\<lparr> lightState_power := p \<rparr>, \<lparr> res_status = 200, res_json = success_body \<rparr>)"
  by (simp add: power_timeout_def split: if_splits)

text \<open>
  C10, as the spec states it, at a request with no token held and a power that is neither
  \<^verbatim>\<open>'on'\<close> nor \<^verbatim>\<open>'off'\<close>: the claim asks for 401 (no token) and for 400 (bad
  power) at once; the handler tests the token first and answers 401.
\<close>

theorem lights_power_unauth_invalid_counterexample:
  "no_token server_init \<and>
   read_power (body_power ''dim'') \<noteq> Some (JStr ''on'') \<and>
   read_power (body_power ''dim'') \<noteq> Some (JStr ''off'') \<and>
   res_status (snd (lights_power_request server_init (body_power ''dim'') 0)) = 401 \<and>
   res_status (snd (lights_power_request server_init (body_power ''dim'') 0)) \<noteq> 400"
  by (simp add: lights_power_request_def post_lights_power_def no_token_def server_init_def
      read_power_def body_power_def)

text \<open>
  C10 (amended): POST /api/lights/power answers 401 whenever no token is held; 400
  whenever a token is held and the body's power is neither \<^verbatim>\<open>'on'\<close> nor
  \<^verbatim>\<open>'off'\<close>; with a token and a valid power it answers 500 when the random draw
  exceeds 0.95 and 200 SUCCESS otherwise. In the 401, 400 and 500 cases the server's
  state is the state before the request; on SUCCESS exactly the light's power is set to
  the requested power; and whenever the state after the request differs from the state
  before, the response is the 200 SUCCESS one.
\<close>

theorem lights_power_request_cases:
  "(no_token s \<longrightarrow>
      lights_power_request s body rnd =
        (s, \<lparr> res_status = 401, res_json = error_body ''Not authenticated'' \<rparr>)) \<and>
   (\<not> no_token s \<and> read_power body \<noteq> Some (JStr ''on'') \<and> read_power body \<noteq> Some (JStr ''off'') \<longrightarrow>
      lights_power_request s body rnd =
        (s, \<lparr> res_status = 400, res_json = error_body ''Invalid power state'' \<rparr>)) \<and>
   (\<not> no_token s \<and> read_power body = Some (JStr p) \<and> (p = ''on'' \<or> p = ''off'') \<and> rnd > 95 / 100 \<longrightarrow>
      lights_power_request s body rnd =
        (s, \<lparr> res_status = 500, res_json = error_body ''Failed to execute command'' \<rparr>)) \<and>
   (\<not> no_token s \<and> read_power body = Some (JStr p) \<and> (p = ''on'' \<or> p = ''off'') \<and> \<not> rnd > 95 / 100 \<longrightarrow>
      lights_power_request s body rnd =
        (s\<lparr> lightState_power := p \<rparr>, \<lparr> res_status = 200, res_json = success_body \<rparr>)) \<and>
   (fst (lights_power_request s body rnd) \<noteq> s \<longrightarrow>
      snd (lights_power_request s body rnd) = \<lparr> res_status = 200, res_json = success_body \<rparr>)"
proof (intro conjI impI)
  assume "no_token s"
  then show "lights_power_request s body rnd =
      (s, \<lparr> res_status = 401, res_json = error_body ''Not authenticated'' \<rparr>)"
    by (simp add: lights_power_request_def post_lights_power_unauth)
next
  assume "\<not> no_token s \<and> read_power body \<noteq> Some (JStr ''on'') \<and> read_power body \<noteq> Some (JStr ''off'')"
  then show "lights_power_request s body rnd =
      (s, \<lparr> res_status = 400, res_json = error_body ''Invalid power state'' \<rparr>)"
    by (simp add: lights_power_request_def post_lights_power_invalid)
next
  assume "\<not> no_token s \<and> read_power body = Some (JStr p) \<and> (p = ''on'' \<or> p = ''off'') \<and> rnd > 95 / 100"
  then show "lights_power_request s body rnd =
      (s, \<lparr> res_status = 500, res_json = error_body ''Failed to execute command'' \<rparr>)"
    by (simp add: lights_power_request_def post_lights_power_valid power_timeout_def)
next
  assume "\<not> no_token s \<and> read_power body = Some (JStr p) \<and> (p = ''on'' \<or> p = ''off'') \<and> \<not> rnd > 95 / 100"
  then show "lights_power_request s body rnd =
      (s\<lparr> lightState_power := p \<rparr>, \<lparr> res_status = 200, res_json = success_body \<rparr>)"
    by (simp add: lights_power_request_def post_lights_power_valid power_timeout_def)
next
  assume changed: "fst (lights_power_request s body rnd) \<noteq> s"
  obtain s1 st where step: "post_lights_power s body = (s1, st)"
    by (cases "post_lights_power s body")
  have s1: "s1 = s"
    using post_lights_power_state [of s body] step by simp
  show "snd (lights_power_request s body rnd) = \<lparr> res_status = 200, res_json = success_body \<rparr>"
  proof (cases st)
    case (Respond r)
    with step s1 changed show ?thesis
      by (simp add: lights_power_request_def)
  next
    case (Deferred q)
    with step s1 changed have "fst (power_timeout s q rnd) \<noteq> s"
      by (simp add: lights_power_request_def)
    then have "power_timeout s q rnd =
        (s\<lparr> lightState_power := q \<rparr>, \<lparr> res_status = 200, res_json = success_body \<rparr>)"
      by (rule power_timeout_changes)
    with step s1 Deferred show ?thesis
      by (simp add: lights_power_request_def)
  qed
qed

theorem lights_power_request_cases_witness:
  "lights_power_request server_init (body_power ''on'') 0 =
     (server_init, \<lparr> res_status = 401, res_json = error_body ''Not authenticated'' \<rparr>) \<and>
   lights_power_request server_authed (body_power ''dim'') 0 =
     (server_authed, \<lparr> res_status = 400, res_json = error_body ''Invalid power state'' \<rparr>) \<and>
   lights_power_request server_authed (body_power ''on'') (96 / 100) =
     (server_authed, \<lparr> res_status = 500, res_json = error_body ''Failed to execute command'' \<rparr>) \<and>
   lights_power_request server_authed (body_power ''on'') (1 / 2) =
     (server_authed\<lparr> lightState_power := ''on'' \<rparr>, \<lparr> res_status = 200, res_json = success_body \<rparr>) \<and>
   fst (lights_power_request server_authed (body_power ''on'') (1 / 2)) \<noteq> server_authed \<and>
   snd (lights_power_request server_authed (body_power ''on'') (1 / 2)) =
     \<lparr> res_status = 200, res_json = success_body \<rparr>"
proof -
  have a: "no_token server_init"
    by (simp add: no_token_def server_init_def)
  have b: "\<not> no_token server_authed"
    by (simp add: no_token_def server_authed_def server_init_def)
  have c: "read_power (body_power ''dim'') \<noteq> Some (JStr ''on'') \<and>
           read_power (body_power ''dim'') \<noteq> Some (JStr ''off'')"
    by (simp add: read_power_def body_power_def)
  have d: "read_power (body_power ''on'') = Some (JStr ''on'')"
    by (simp add: read_power_def body_power_def)
  have e: "server_authed\<lparr> lightState_power := ''on'' \<rparr> \<noteq> server_authed"
    by (simp add: server_authed_def server_init_def)
  show ?thesis
    using a b c d e
      lights_power_request_cases [of server_init "body_power ''on''" 0 "''on''"]
      lights_power_request_cases [of server_authed "body_power ''dim''" 0 "''on''"]
      lights_power_request_cases [of server_authed "body_power ''on''" "96 / 100" "''on''"]
      lights_power_request_cases [of server_authed "body_power ''on''" "1 / 2" "''on''"]
    by simp
qed

section \<open>The smart light: results\<close>

lemma payload_empty_iff:
  "payload ns st = [] \<longleftrightarrow>
   new_power ns = None \<and> new_r ns = None \<and> new_g ns = None \<and> new_b ns = None"
  by (simp add: payload_def split: option.splits)

lemma updateLightState_begin_sends:
  assumes "cl_lightConnectionStatus cl = LightConnected" and "\<not> cl_isUpdatingLight cl"
    and "payload ns (spread (cl_lights cl) ns) \<noteq> []"
  shows "updateLightState_begin cl ns w =
     (w\<lparr> lights := spread (cl_lights cl) ns, isUpdatingLight := True,
         fetches := fetches w @
           [state_request (cl_lightIpAddress cl) (payload ns (spread (cl_lights cl) ns))] \<rparr>,
      Awaiting (cl_lights cl))"
  using assms by (simp add: updateLightState_begin_def Let_def)

lemma updateLightState_settle_failed:
  assumes "\<not> response_ok outcome"
  shows "updateLightState_settle snapshot outcome w =
     w\<lparr> console := console w @ [''Failed to update light state:''],
        alerts := alerts w @ [light_alert],
        lights := snapshot,
        lightConnectionStatus := LightError,
        isUpdatingLight := False \<rparr>"
  using assms by (simp add: updateLightState_settle_def)

text \<open>
  What the \<^verbatim>\<open>catch\<close> block does, for a call that passed the guard and sent a
  request: when the request fails (a response that is not ok, a network error or the 3 s
  timeout), whatever state \<open>w2\<close> the component is in by then, the lights become the
  snapshot, that is the lights the call bound, the connection status is Error, one alert
  is shown and the light is no longer updating. For a call of the current render the
  snapshot is the lights of before the call.
\<close>

lemma updateLightState_rollback:
  assumes "cl_lightConnectionStatus cl = LightConnected"
    and "\<not> cl_isUpdatingLight cl"
    and "new_power ns \<noteq> None \<or> new_r ns \<noteq> None \<or> new_g ns \<noteq> None \<or> new_b ns \<noteq> None"
    and "\<not> response_ok outcome"
  shows "snd (updateLightState_begin cl ns w) = Awaiting (cl_lights cl) \<and>
     lights (fst (updateLightState_begin cl ns w)) = spread (cl_lights cl) ns \<and>
     length (fetches (fst (updateLightState_begin cl ns w))) = Suc (length (fetches w)) \<and>
     lights (updateLightState_settle (cl_lights cl) outcome w2) = cl_lights cl \<and>
     lightConnectionStatus (updateLightState_settle (cl_lights cl) outcome w2) = LightError \<and>
     alerts (updateLightState_settle (cl_lights cl) outcome w2) = alerts w2 @ [light_alert] \<and>
     \<not> isUpdatingLight (updateLightState_settle (cl_lights cl) outcome w2) \<and>
     lights (updateLightState cl ns outcome w) = cl_lights cl \<and>
     lightConnectionStatus (updateLightState cl ns outcome w) = LightError \<and>
     alerts (updateLightState cl ns outcome w) = alerts w @ [light_alert]"
proof -
  have pl: "payload ns (spread (cl_lights cl) ns) \<noteq> []"
    using assms(3) by (simp add: payload_empty_iff)
  note start = updateLightState_begin_sends [OF assms(1,2) pl, of w]
  note settle = updateLightState_settle_failed [OF assms(4)]
  have whole: "updateLightState cl ns outcome w =
      updateLightState_settle (cl_lights cl) outcome (fst (updateLightState_begin cl ns w))"
    by (simp add: updateLightState_def start)
  show ?thesis
    unfolding whole by (simp add: start settle)
qed

lemma updateLightState_rollback_current:
  assumes "lightConnectionStatus w = LightConnected"
    and "\<not> isUpdatingLight w"
    and "new_power ns \<noteq> None \<or> new_r ns \<noteq> None \<or> new_g ns \<noteq> None \<or> new_b ns \<noteq> None"
    and "\<not> response_ok outcome"
  shows "lights (updateLightState (render w) ns outcome w) = lights w"
  using updateLightState_rollback [of "render w" ns outcome w] assms
  by (simp add: render_def)

lemma workshop_two_slides_eq:
  "workshop_two_slides =
     workshop_connected
       \<lparr> lights := \<lparr> light_power = ''on'', light_r = 10, light_g = 220, light_b = 180 \<rparr>,
         lightColorTimeoutRef := Some 2,
         now := 100,
         timers := [\<lparr> timer_id = 2, timer_due = 350, timer_cl = closure_after_first_slide \<rparr>],
         next_id := 3 \<rparr>"
  by (simp add: workshop_two_slides_def handleLightColorChange_def setTimeout_def clearTimeout_def
      advance_def render_def closure_after_first_slide_def workshop_connected_def
      workshop_init_def Let_def)

text \<open>
  C1 at a failing input. The light is connected and on, its red channel 255. The user
  drags the red slider to 100 (0 ms) and on to 10 (100 ms); the lights show red 10. At
  350 ms the timer of the second event fires and calls the \<^verbatim>\<open>updateLightState\<close> of
  the render after the first event, which binds the lights with red 100: the call passes
  the guard, writes the lights (red 10), sends the POST and waits with the bound lights
  as its snapshot. The device answers 500. The status becomes Error and the alert is
  shown, but the lights are set to the snapshot, red 100: not the lights of before the
  update (red 10), nor the lights of before the drag (red 255).
\<close>

theorem stale_snapshot_rollback:
  "light_r (lights workshop_connected) = 255 \<and>
   light_r (lights workshop_two_slides) = 10 \<and>
   map timer_cl (timers workshop_two_slides) = [closure_after_first_slide] \<and>
   light_color_timeout_call closure_after_first_slide
       (workshop_two_slides\<lparr> timers := [], now := 350 \<rparr>) =
     (advance 350 workshop_two_slides,
      Awaiting \<lparr> light_power = ''on'', light_r = 100, light_g = 220, light_b = 180 \<rparr>) \<and>
   light_r (lights (advance 350 workshop_two_slides)) = 10 \<and>
   map req_body (fetches (advance 350 workshop_two_slides)) =
     [Some (JObj [(''color'', JObj [(''r'', JNum 10), (''g'', JNum 220), (''b'', JNum 180)])])] \<and>
   lights (updateLightState_settle
       \<lparr> light_power = ''on'', light_r = 100, light_g = 220, light_b = 180 \<rparr> (Responded 500)
       (advance 350 workshop_two_slides)) =
     \<lparr> light_power = ''on'', light_r = 100, light_g = 220, light_b = 180 \<rparr> \<and>
   lightConnectionStatus (updateLightState_settle
       \<lparr> light_power = ''on'', light_r = 100, light_g = 220, light_b = 180 \<rparr> (Responded 500)
       (advance 350 workshop_two_slides)) = LightError \<and>
   alerts (updateLightState_settle
       \<lparr> light_power = ''on'', light_r = 100, light_g = 220, light_b = 180 \<rparr> (Responded 500)
       (advance 350 workshop_two_slides)) = [light_alert]"
proof -
  have fired: "advance 350 workshop_two_slides =
      fst (light_color_timeout_call closure_after_first_slide
        (workshop_two_slides\<lparr> timers := [], now := 350 \<rparr>))"
    by (simp add: workshop_two_slides_eq advance_def light_color_timeout_def)
  have call: "light_color_timeout_call closure_after_first_slide
        (workshop_two_slides\<lparr> timers := [], now := 350 \<rparr>) =
      (workshop_two_slides
         \<lparr> timers := [], now := 350, isUpdatingLight := True,
           fetches := [state_request ''http://192.168.1.50''
             [(''color'', JObj [(''r'', JNum 10), (''g'', JNum 220), (''b'', JNum 180)])]] \<rparr>,
       Awaiting \<lparr> light_power = ''on'', light_r = 100, light_g = 220, light_b = 180 \<rparr>)"
    by (simp add: workshop_two_slides_eq light_color_timeout_call_def updateLightState_begin_def
        closure_after_first_slide_def spread_def payload_def color_json_def
        workshop_connected_def workshop_init_def Let_def)
  have before: "light_r (lights workshop_connected) = 255" "alerts workshop_connected = []"
    by (simp_all add: workshop_connected_def workshop_init_def)
  have shown: "light_r (lights workshop_two_slides) = 10"
    "map timer_cl (timers workshop_two_slides) = [closure_after_first_slide]"
    "alerts workshop_two_slides = []"
    by (simp_all add: workshop_two_slides_eq before)
  show ?thesis
    unfolding fired call
    by (simp add: before shown updateLightState_settle_def state_request_def)
qed

text \<open>
  The guard of \<^verbatim>\<open>updateLightState\<close>: a call whose bound \<^verbatim>\<open>isUpdatingLight\<close> is
  true returns at once. The component's state after the call is the state before it:
  nothing is queued, no request is added, the lights and the status are what they were.
\<close>

lemma updateLightState_guard_drops:
  assumes "cl_isUpdatingLight cl"
  shows "updateLightState_begin cl ns w = (w, Dropped)"
    and "updateLightState cl ns outcome w = w"
  using assms by (simp_all add: updateLightState_begin_def updateLightState_def)

lemma updateLightState_guard_drops_current:
  "isUpdatingLight w \<Longrightarrow> updateLightState_begin (render w) ns w = (w, Dropped)"
  by (simp add: updateLightState_guard_drops render_def)

lemma workshop_race_eq:
  "workshop_race =
     workshop_connected
       \<lparr> lights := \<lparr> light_power = ''off'', light_r = 10, light_g = 220, light_b = 180 \<rparr>,
         isUpdatingLight := True,
         lightColorTimeoutRef := Some 1,
         now := 100,
         timers := [\<lparr> timer_id = 1, timer_due = 250, timer_cl = render workshop_connected \<rparr>],
         next_id := 2,
         fetches := [state_request ''http://192.168.1.50'' [(''power'', JStr ''off'')]] \<rparr>"
  by (simp add: workshop_race_def handleLightColorChange_def setTimeout_def advance_def
      handleLightPowerToggle_def updateLightState_begin_def render_def spread_def payload_def
      workshop_connected_def workshop_init_def Let_def)

text \<open>
  C2 at a failing input. The light is connected and on. The user moves the red slider
  (0 ms) and clicks the power button (100 ms): the command \<^verbatim>\<open>{power: 'off'}\<close> is out,
  \<^verbatim>\<open>isUpdatingLight\<close> is true and the lights show off. At 250 ms the slider's timer
  fires and calls the \<^verbatim>\<open>updateLightState\<close> of the render of 0 ms, which binds
  \<^verbatim>\<open>isUpdatingLight = false\<close>: the call is not dropped. A second request is sent
  while the first is outstanding, and the lights are overwritten (the power shows on
  again).
\<close>

theorem stale_closure_second_write:
  "isUpdatingLight workshop_race \<and>
   map req_body (fetches workshop_race) = [Some (JObj [(''power'', JStr ''off'')])] \<and>
   light_power (lights workshop_race) = ''off'' \<and>
   map req_body (fetches (advance 250 workshop_race)) =
     [Some (JObj [(''power'', JStr ''off'')]),
      Some (JObj [(''color'', JObj [(''r'', JNum 10), (''g'', JNum 220), (''b'', JNum 180)])])] \<and>
   light_power (lights (advance 250 workshop_race)) = ''on'' \<and>
   advance 250 workshop_race \<noteq> workshop_race"
proof -
  have fired: "advance 250 workshop_race =
      fst (updateLightState_begin (render workshop_connected)
        \<lparr> new_power = None, new_r = Some 10, new_g = Some 220, new_b = Some 180 \<rparr>
        (workshop_race\<lparr> timers := [], now := 250 \<rparr>))"
    by (simp add: workshop_race_eq advance_def light_color_timeout_def light_color_timeout_call_def)
  have sent: "fetches (advance 250 workshop_race) =
      fetches workshop_race @
        [state_request ''http://192.168.1.50''
           [(''color'', JObj [(''r'', JNum 10), (''g'', JNum 220), (''b'', JNum 180)])]]"
    and shown: "light_power (lights (advance 250 workshop_race)) = ''on''"
    unfolding fired
    by (simp_all add: updateLightState_begin_def render_def spread_def payload_def color_json_def
        workshop_connected_def workshop_init_def Let_def)
  have before: "isUpdatingLight workshop_race"
    "fetches workshop_race = [state_request ''http://192.168.1.50'' [(''power'', JStr ''off'')]]"
    "light_power (lights workshop_race) = ''off''"
    by (simp_all add: workshop_race_eq)
  from shown before(3) have "advance 250 workshop_race \<noteq> workshop_race"
    by auto
  with sent shown before show ?thesis
    by (simp add: state_request_def)
qed

section \<open>The debounced colour sliders: results\<close>

lemma color_json_spread_rgb:
  "color_json (spread st0 \<lparr> new_power = None, new_r = Some (light_r st),
       new_g = Some (light_g st), new_b = Some (light_b st) \<rparr>) = color_json st"
  by (simp add: color_json_def spread_def)

lemma light_color_timeout_sends:
  assumes "cl_lightConnectionStatus cl = LightConnected" and "\<not> cl_isUpdatingLight cl"
  shows "fetches (light_color_timeout cl w) =
     fetches w @ [state_request (cl_lightIpAddress cl) [(''color'', color_json (lights w))]]"
  using assms
  by (simp add: light_color_timeout_def light_color_timeout_call_def updateLightState_begin_def Let_def payload_def
      color_json_spread_rgb)

lemma advance_not_due:
  assumes "one_pending w" and "now w \<le> t" and "timers w = [] \<or> t < now w + 250"
  shows "advance t w = w\<lparr> now := t \<rparr>"
proof (cases "timers w")
  case Nil
  with assms(2) show ?thesis
    by (simp add: advance_def max_def)
next
  case (Cons tm rest)
  with assms have "rest = []" and "t < timer_due tm"
    by (simp_all add: one_pending_def)
  with Cons assms(2) show ?thesis
    by (simp add: advance_def max_def)
qed

lemma handleLightColorChange_rearm:
  assumes "case timers u of [] \<Rightarrow> True
     | tm # rest \<Rightarrow> rest = [] \<and> lightColorTimeoutRef u = Some (timer_id tm) \<and> timer_id tm \<noteq> 0"
  shows "handleLightColorChange cl color v u =
     u\<lparr> lights := set_channel color v (lights u),
        timers := [\<lparr> timer_id = next_id u, timer_due = now u + 250, timer_cl = cl \<rparr>],
        next_id := Suc (next_id u),
        lightColorTimeoutRef := Some (next_id u) \<rparr>"
proof (cases "timers u")
  case Nil
  then show ?thesis
    by (cases "lightColorTimeoutRef u")
      (simp_all add: handleLightColorChange_def Let_def clearTimeout_def setTimeout_def)
next
  case (Cons tm rest)
  with assms show ?thesis
    by (simp add: handleLightColorChange_def Let_def clearTimeout_def setTimeout_def)
qed

lemma change_step:
  fixes color :: channel and v :: number
  assumes inv: "one_pending w" and le: "now w \<le> t" and win: "timers w = [] \<or> t < now w + 250"
  defines "w' \<equiv> handleLightColorChange (render (advance t w)) color v (advance t w)"
  shows "one_pending w'"
    and "fetches w' = fetches w"
    and "lights w' = set_channel color v (lights w)"
    and "lightConnectionStatus w' = lightConnectionStatus w"
    and "isUpdatingLight w' = isUpdatingLight w"
    and "lightIpAddress w' = lightIpAddress w"
    and "now w' = t"
    and "timers w' \<noteq> []"
proof -
  have adv: "advance t w = w\<lparr> now := t \<rparr>"
    using inv le win by (rule advance_not_due)
  have "case timers (w\<lparr> now := t \<rparr>) of [] \<Rightarrow> True
     | tm # rest \<Rightarrow> rest = [] \<and> lightColorTimeoutRef (w\<lparr> now := t \<rparr>) = Some (timer_id tm) \<and>
         timer_id tm \<noteq> 0"
    using inv by (simp add: one_pending_def split: list.splits)
  note w' = handleLightColorChange_rearm [OF this, of "render (w\<lparr> now := t \<rparr>)" color v,
      folded adv, folded w'_def]
  from inv have id: "next_id w \<noteq> 0"
    by (simp add: one_pending_def)
  show "one_pending w'"
    using id by (simp add: w' adv one_pending_def render_def)
  show "fetches w' = fetches w" "lights w' = set_channel color v (lights w)"
    "lightConnectionStatus w' = lightConnectionStatus w" "isUpdatingLight w' = isUpdatingLight w"
    "lightIpAddress w' = lightIpAddress w" "now w' = t" "timers w' \<noteq> []"
    by (simp_all add: w' adv)
qed

lemma slide_window:
  assumes "one_pending w" and "within_window (now w) es"
  shows "one_pending (slide es w) \<and> fetches (slide es w) = fetches w \<and>
     lights (slide es w) = settled_lights (lights w) es \<and>
     lightConnectionStatus (slide es w) = lightConnectionStatus w \<and>
     isUpdatingLight (slide es w) = isUpdatingLight w \<and>
     lightIpAddress (slide es w) = lightIpAddress w \<and>
     now (slide es w) = last_time (now w) es \<and>
     (timers w \<noteq> [] \<or> es \<noteq> [] \<longrightarrow> timers (slide es w) \<noteq> [])"
  using assms
proof (induction es arbitrary: w)
  case Nil
  then show ?case by simp
next
  case (Cons e es)
  obtain t color v where e: "e = (t, color, v)"
    by (cases e)
  let ?w = "handleLightColorChange (render (advance t w)) color v (advance t w)"
  from Cons.prems e have le: "now w \<le> t" and win: "timers w = [] \<or> t < now w + 250"
    and rest: "within_window t es"
    by simp_all
  note step = change_step [OF Cons.prems(1) le win, of color v]
  from rest step(7) have "within_window (now ?w) es"
    by simp
  from Cons.IH [OF step(1) this] step show ?case
    by (simp add: e Let_def)
qed

lemma advance_fires:
  assumes inv: "one_pending w" and pending: "timers w \<noteq> []"
    and conn: "lightConnectionStatus w = LightConnected" and idle: "\<not> isUpdatingLight w"
    and due: "now w + 250 \<le> T"
  shows "fetches (advance T w) =
     fetches w @ [state_request (lightIpAddress w) [(''color'', color_json (lights w))]]"
proof -
  from pending obtain tm rest where tms: "timers w = tm # rest"
    by (cases "timers w") auto
  with inv have facts: "rest = []" "timer_due tm = now w + 250"
    "cl_lightConnectionStatus (timer_cl tm) = lightConnectionStatus w"
    "cl_isUpdatingLight (timer_cl tm) = isUpdatingLight w"
    "cl_lightIpAddress (timer_cl tm) = lightIpAddress w"
    by (simp_all add: one_pending_def)
  have "advance T w = light_color_timeout (timer_cl tm) (w\<lparr> timers := [], now := max (now w) T \<rparr>)"
    using tms facts(1,2) due by (simp add: advance_def)
  moreover have "cl_lightConnectionStatus (timer_cl tm) = LightConnected" "\<not> cl_isUpdatingLight (timer_cl tm)"
    using facts conn idle by simp_all
  ultimately show ?thesis
    using facts(5) by (simp add: light_color_timeout_sends)
qed

lemma slide_then_settle:
  fixes color :: channel and v :: number
  assumes conn: "lightConnectionStatus w = LightConnected" and idle: "\<not> isUpdatingLight w"
    and none: "timers w = []" and ids: "next_id w \<noteq> 0"
    and first: "now w \<le> t" and win: "within_window t es" and due: "last_time t es + 250 \<le> T"
  shows "fetches (slide ((t, color, v) # es) w) = fetches w"
    and "fetches (advance T (slide ((t, color, v) # es) w)) =
      fetches w @ [state_request (lightIpAddress w)
        [(''color'', color_json (settled_lights (lights w) ((t, color, v) # es)))]]"
proof -
  let ?w = "handleLightColorChange (render (advance t w)) color v (advance t w)"
  have inv: "one_pending w"
    using none ids by (simp add: one_pending_def)
  have "timers w = [] \<or> t < now w + 250"
    using none by simp
  note step = change_step [OF inv first this, of color v]
  from win step(7) have "within_window (now ?w) es"
    by simp
  note run = slide_window [OF step(1) this]
  have unfold: "slide ((t, color, v) # es) w = slide es ?w"
    by (simp add: Let_def)
  show "fetches (slide ((t, color, v) # es) w) = fetches w"
    unfolding unfold using run step(2) by simp
  have "fetches (advance T (slide es ?w)) =
      fetches (slide es ?w) @ [state_request (lightIpAddress (slide es ?w))
        [(''color'', color_json (lights (slide es ?w)))]]"
  proof (rule advance_fires)
    show "one_pending (slide es ?w)"
      using run by simp
    show "timers (slide es ?w) \<noteq> []"
      using run step(8) by simp
    show "lightConnectionStatus (slide es ?w) = LightConnected"
      using run step(4) conn by simp
    show "\<not> isUpdatingLight (slide es ?w)"
      using run step(5) idle by simp
    show "now (slide es ?w) + 250 \<le> T"
      using run step(7) due by simp
  qed
  then show "fetches (advance T (slide ((t, color, v) # es) w)) =
      fetches w @ [state_request (lightIpAddress w)
        [(''color'', color_json (settled_lights (lights w) ((t, color, v) # es)))]]"
    unfolding unfold using run step(2,3,6) by simp
qed

lemma scenario_facts:
  "scenario_changes = (0, Ch_r, 10) # tl scenario_changes"
  "within_window 0 (tl scenario_changes)"
  "last_time 0 (tl scenario_changes) + 250 \<le> 350"
  "color_json (settled_lights (lights workshop_connected) scenario_changes) =
     JObj [(''r'', JNum 40), (''g'', JNum 50), (''b'', JNum 60)]"
  "lightConnectionStatus workshop_connected = LightConnected"
  "\<not> isUpdatingLight workshop_connected"
  "timers workshop_connected = []"
  "next_id workshop_connected \<noteq> 0"
  "now workshop_connected \<le> 0"
  "fetches workshop_connected = []"
  "lightIpAddress workshop_connected = ''http://192.168.1.50''"
  by (simp_all add: scenario_changes_def workshop_connected_def workshop_init_def color_json_def)

text \<open>
  C3, as the spec states it, at its own scenario: the light is connected, the colour goes
  to (10,20,30) and, 100 ms later, to (40,50,60). One POST is sent, and its body is
  \<^verbatim>\<open>{color: {r: 40, g: 50, b: 60}}\<close>, not \<^verbatim>\<open>{r: 40, g: 50, b: 60}\<close>.
\<close>

theorem debounce_scenario_body_counterexample:
  "map req_body (fetches (advance 350 (slide scenario_changes workshop_connected))) =
     [Some (JObj [(''color'', JObj [(''r'', JNum 40), (''g'', JNum 50), (''b'', JNum 60)])])] \<and>
   map req_body (fetches (advance 350 (slide scenario_changes workshop_connected))) \<noteq>
     [Some (JObj [(''r'', JNum 40), (''g'', JNum 50), (''b'', JNum 60)])]"
proof -
  have "fetches (advance 350 (slide ((0, Ch_r, 10) # tl scenario_changes) workshop_connected)) =
      fetches workshop_connected @ [state_request (lightIpAddress workshop_connected)
        [(''color'', color_json (settled_lights (lights workshop_connected)
            ((0, Ch_r, 10) # tl scenario_changes)))]]"
    by (rule slide_then_settle(2)) (rule scenario_facts)+
  then show ?thesis
    unfolding scenario_facts(1) [symmetric]
    by (simp add: state_request_def scenario_facts(4,10))
qed

text \<open>
  C3 (amended): the light is connected and not updating, no timer is pending and timer
  ids are positive. For any run of slider changes, each less than 250 ms after the one
  before it, no request is sent during the run, and once 250 ms have passed after the last
  change exactly one request has been added: the POST to the light's \<^verbatim>\<open>/state\<close>
  whose body is \<^verbatim>\<open>{color: {r, g, b}}\<close> with the channels the run settled on.
\<close>

theorem debounced_slider_one_write:
  fixes color :: channel and v :: number
  assumes "lightConnectionStatus w = LightConnected" and "\<not> isUpdatingLight w"
    and "timers w = []" and "next_id w \<noteq> 0"
    and "now w \<le> t" and "within_window t es" and "last_time t es + 250 \<le> T"
  shows "fetches (slide ((t, color, v) # es) w) = fetches w \<and>
     fetches (advance T (slide ((t, color, v) # es) w)) =
       fetches w @ [state_request (lightIpAddress w)
         [(''color'', color_json (settled_lights (lights w) ((t, color, v) # es)))]]"
  using slide_then_settle [OF assms] by simp

theorem debounced_slider_one_write_witness:
  "fetches (slide scenario_changes workshop_connected) = [] \<and>
   fetches (advance 350 (slide scenario_changes workshop_connected)) =
     [state_request ''http://192.168.1.50''
        [(''color'', JObj [(''r'', JNum 40), (''g'', JNum 50), (''b'', JNum 60)])]]"
  using debounced_slider_one_write [OF scenario_facts(5-9) scenario_facts(2,3), of Ch_r 10]
  unfolding scenario_facts(1) [symmetric]
  by (simp add: scenario_facts(4,10,11))


section \<open>The CNC bridge: results\<close>

lemma onmessage_try_unparseable:
  "JSON_parse data = Inl e \<Longrightarrow> onmessage_try JSON_parse data w = Inl e"
  by (simp add: onmessage_try_def)

lemma ws_onmessage_returns: "\<exists>w'. ws_onmessage JSON_parse data w = Inr w'"
  by (simp add: ws_onmessage_def split: sum.splits)

text \<open>
  C7: an inbound message that \<^verbatim>\<open>JSON.parse\<close> rejects. The handler returns normally
  (the exception is caught in the handler and does not leave it), and the state it
  returns has the CNC status, the loaded G-code file and the progress of before, with one
  more console line, the short message; the socket is kept. For any message whatever, the
  handler returns normally.
\<close>

theorem ws_onmessage_unparseable:
  assumes "JSON_parse data = Inl e"
  shows "(\<exists>w'. ws_onmessage JSON_parse data w = Inr w' \<and>
        cncStatus w' = cncStatus w \<and> gcodeFile w' = gcodeFile w \<and>
        gcodeProgress w' = gcodeProgress w \<and> websocketRef w' = websocketRef w \<and>
        console w' = console w @ [''Failed to parse incoming WebSocket message:'']) \<and>
     (\<exists>w'. ws_onmessage JSON_parse data' w = Inr w')"
proof
  have "ws_onmessage JSON_parse data w =
      Inr (w\<lparr> console := console w @ [''Failed to parse incoming WebSocket message:''] \<rparr>)"
    using assms by (simp add: ws_onmessage_def onmessage_try_unparseable)
  then show "\<exists>w'. ws_onmessage JSON_parse data w = Inr w' \<and>
        cncStatus w' = cncStatus w \<and> gcodeFile w' = gcodeFile w \<and>
        gcodeProgress w' = gcodeProgress w \<and> websocketRef w' = websocketRef w \<and>
        console w' = console w @ [''Failed to parse incoming WebSocket message:'']"
    by simp
  show "\<exists>w'. ws_onmessage JSON_parse data' w = Inr w'"
    by (rule ws_onmessage_returns)
qed

theorem ws_onmessage_unparseable_witness:
  "toy_parse ''not json'' = Inl SyntaxError \<and>
   (\<exists>w'. ws_onmessage toy_parse ''not json'' workshop_cnc_running = Inr w' \<and>
      cncStatus w' = CncRunning \<and> gcodeFile w' = Some (JStr ''part.nc'') \<and> gcodeProgress w' = 40 \<and>
      console w' = [''Failed to parse incoming WebSocket message:''])"
proof -
  have a: "toy_parse ''not json'' = Inl SyntaxError"
    by (simp add: toy_parse_def)
  have b: "cncStatus workshop_cnc_running = CncRunning"
    "gcodeFile workshop_cnc_running = Some (JStr ''part.nc'')"
    "gcodeProgress workshop_cnc_running = 40" "console workshop_cnc_running = []"
    by (simp_all add: workshop_cnc_running_def workshop_init_def)
  show ?thesis
    using a ws_onmessage_unparseable [of toy_parse "''not json''" SyntaxError workshop_cnc_running "''null''"]
    by (auto simp: b)
qed

lemma sendCncCommand_not_open:
  assumes "\<forall>ws. websocketRef w = Some ws \<longrightarrow> readyState ws \<noteq> OPEN"
  shows "sendCncCommand command w = w"
  using assms by (simp add: sendCncCommand_def split: option.splits)

lemma sendCncCommand_open:
  assumes "websocketRef w = Some ws" and "readyState ws = OPEN"
  shows "cnc_sent (sendCncCommand command w) = ws_sent ws @ [JObj [(''command'', JStr command)]]"
  using assms by (simp add: sendCncCommand_def cnc_sent_def)

text \<open>
  C9: after \<^verbatim>\<open>onclose\<close>, from any state (so also after \<^verbatim>\<open>onerror\<close>), the CNC
  status is Disconnected, no G-code file is loaded and the progress is 0, as in the
  initial state, and the socket reference is cleared. \<^verbatim>\<open>sendCncCommand\<close> sends only
  on a socket whose \<^verbatim>\<open>readyState\<close> is OPEN: whenever the messages sent differ after the
  call, the component held an OPEN socket; with no socket or a socket that is not OPEN the
  call returns the state unchanged, in particular after \<^verbatim>\<open>onclose\<close>; on an OPEN socket
  it appends \<^verbatim>\<open>{command}\<close>.
\<close>

theorem cnc_close_resets_and_send_needs_open:
  "cncStatus (ws_onclose w) = CncDisconnected \<and> gcodeFile (ws_onclose w) = None \<and>
   gcodeProgress (ws_onclose w) = 0 \<and> websocketRef (ws_onclose w) = None \<and>
   cncStatus (ws_onclose w) = cncStatus workshop_init \<and>
   gcodeFile (ws_onclose w) = gcodeFile workshop_init \<and>
   gcodeProgress (ws_onclose w) = gcodeProgress workshop_init \<and>
   cncStatus (ws_onclose (ws_onerror w)) = CncDisconnected \<and>
   gcodeFile (ws_onclose (ws_onerror w)) = None \<and>
   gcodeProgress (ws_onclose (ws_onerror w)) = 0 \<and>
   sendCncCommand command (ws_onclose w) = ws_onclose w \<and>
   (cnc_sent (sendCncCommand command w) \<noteq> cnc_sent w \<longrightarrow>
      (\<exists>ws. websocketRef w = Some ws \<and> readyState ws = OPEN)) \<and>
   ((\<forall>ws. websocketRef w = Some ws \<longrightarrow> readyState ws \<noteq> OPEN) \<longrightarrow> sendCncCommand command w = w) \<and>
   (\<forall>ws. websocketRef w = Some ws \<and> readyState ws = OPEN \<longrightarrow>
      cnc_sent (sendCncCommand command w) = ws_sent ws @ [JObj [(''command'', JStr command)]])"
proof -
  have closed: "cncStatus (ws_onclose u) = CncDisconnected \<and> gcodeFile (ws_onclose u) = None \<and>
      gcodeProgress (ws_onclose u) = 0 \<and> websocketRef (ws_onclose u) = None" for u
    by (simp add: ws_onclose_def)
  have init: "cncStatus workshop_init = CncDisconnected \<and> gcodeFile workshop_init = None \<and>
      gcodeProgress workshop_init = 0"
    by (simp add: workshop_init_def)
  have after: "sendCncCommand command (ws_onclose w) = ws_onclose w"
    by (rule sendCncCommand_not_open) (simp add: closed)
  have only_open: "cnc_sent (sendCncCommand command w) \<noteq> cnc_sent w \<longrightarrow>
      (\<exists>ws. websocketRef w = Some ws \<and> readyState ws = OPEN)"
    using sendCncCommand_not_open [of w command] by fastforce
  show ?thesis
    using closed [of w] closed [of "ws_onerror w"] init after only_open
      sendCncCommand_not_open [of w command] sendCncCommand_open [of w _ command]
    by simp
qed

theorem cnc_close_resets_and_send_needs_open_witness:
  "cnc_sent (sendCncCommand ''play'' workshop_cnc_running) = [JObj [(''command'', JStr ''play'')]] \<and>
   cnc_sent (sendCncCommand ''play'' workshop_cnc_running) \<noteq> cnc_sent workshop_cnc_running \<and>
   sendCncCommand ''play'' workshop_init = workshop_init \<and>
   sendCncCommand ''play'' (disconnectUCCNC workshop_cnc_running) = disconnectUCCNC workshop_cnc_running \<and>
   cncStatus (ws_onclose workshop_cnc_running) = CncDisconnected \<and>
   gcodeFile (ws_onclose workshop_cnc_running) = None \<and>
   gcodeProgress (ws_onclose workshop_cnc_running) = 0 \<and>
   sendCncCommand ''play'' (ws_onclose workshop_cnc_running) = ws_onclose workshop_cnc_running"
proof -
  have a: "websocketRef workshop_cnc_running =
      Some \<lparr> ws_url = ''ws://192.168.1.123:8765'', readyState = OPEN, ws_sent = [] \<rparr>"
    "cnc_sent workshop_cnc_running = []"
    by (simp_all add: workshop_cnc_running_def workshop_init_def cnc_sent_def)
  have b: "\<forall>ws. websocketRef workshop_init = Some ws \<longrightarrow> readyState ws \<noteq> OPEN"
    by (simp add: workshop_init_def)
  have c: "\<forall>ws. websocketRef (disconnectUCCNC workshop_cnc_running) = Some ws \<longrightarrow> readyState ws \<noteq> OPEN"
    by (simp add: disconnectUCCNC_def a)
  show ?thesis
    using a b c
      cnc_close_resets_and_send_needs_open [of workshop_cnc_running "''play''"]
      cnc_close_resets_and_send_needs_open [of workshop_init "''play''"]
      cnc_close_resets_and_send_needs_open [of "disconnectUCCNC workshop_cnc_running" "''play''"]
    by simp
qed


section \<open>The voice assistant: results\<close>

lemma stopConversation_listening:
  "stopConversation True w =
     w\<lparr> close_requests := close_requests w @ opt_list (sessionPromise w),
        audio_ops := audio_ops w @
          map Disconnect (opt_list (scriptProcessor w)) @
          map Disconnect (opt_list (mediaStreamSource w)) @
          map ContextClose (opt_list (audioContext w)) @
          map TracksStop (opt_list (mediaStream w)),
        sessionPromise := None, scriptProcessor := None, mediaStreamSource := None,
        audioContext := None, mediaStream := None, isListening := False \<rparr>"
  by (cases "sessionPromise w"; cases "scriptProcessor w"; cases "mediaStreamSource w";
      cases "audioContext w"; cases "mediaStream w")
    (simp_all add: stopConversation_def opt_list_def Let_def)

lemma stopConversation_not_listening: "stopConversation False w = w"
  by (simp add: stopConversation_def)

lemma startConversation_env:
  "startConversation cl_isListening apiKey cl w = (w', Some env) \<Longrightarrow> \<not> env_isListening env"
  by (auto simp: startConversation_def split: if_splits)

text \<open>
  The microphone is refused, in a session whose callbacks bind \<^verbatim>\<open>isListening = false\<close>
  (every session \<^verbatim>\<open>startConversation\<close> creates, by \<open>startConversation_env\<close>): the
  \<^verbatim>\<open>stopConversation()\<close> of the \<^verbatim>\<open>catch\<close> block returns at its guard, and the state
  is left as it was but for the console line and the alert.
\<close>

lemma microphone_refused_keeps_all:
  assumes "\<not> env_isListening env"
  shows "session_onopen_resume env False w =
     w\<lparr> console := console w @ [''Error initializing audio input:''],
        alerts := alerts w @ [mic_alert] \<rparr>"
  using assms by (simp add: session_onopen_resume_def onopen_catch_def stopConversation_def)

lemma workshop_listening_refs:
  "sessionPromise workshop_listening = Some 2"
  "audioContext workshop_listening = Some 3"
  "mediaStream workshop_listening = Some 4"
  "mediaStreamSource workshop_listening = Some 5"
  "scriptProcessor workshop_listening = Some 6"
  "audio_ops workshop_listening = []"
  "close_requests workshop_listening = []"
  "isListening workshop_listening"
  by (simp_all add: workshop_listening_def session_onopen_resume_def session_onopen_begin_def
      startConversation_def key_missing_def voice_env_def workshop_init_def Let_def)

lemma workshop_mic_refused_refs:
  "sessionPromise workshop_mic_refused = Some 2"
  "audioContext workshop_mic_refused = Some 3"
  "mediaStream workshop_mic_refused = None"
  "audio_ops workshop_mic_refused = []"
  "close_requests workshop_mic_refused = []"
  "isListening workshop_mic_refused"
  "alerts workshop_mic_refused = [mic_alert]"
  by (simp_all add: workshop_mic_refused_def session_onopen_resume_def onopen_catch_def
      stopConversation_def session_onopen_begin_def startConversation_def key_missing_def
      voice_env_def workshop_init_def Let_def)

lemma session_onmessage_turn:
  "toolCall msg = None \<Longrightarrow>
   audio_ops (snd (session_onmessage env msg w)) = audio_ops w \<and>
   close_requests (snd (session_onmessage env msg w)) = close_requests w \<and>
   sessionPromise (snd (session_onmessage env msg w)) = sessionPromise w \<and>
   mediaStream (snd (session_onmessage env msg w)) = mediaStream w \<and>
   audioContext (snd (session_onmessage env msg w)) = audioContext w \<and>
   scriptProcessor (snd (session_onmessage env msg w)) = scriptProcessor w \<and>
   mediaStreamSource (snd (session_onmessage env msg w)) = mediaStreamSource w \<and>
   isListening (snd (session_onmessage env msg w)) = isListening w"
  by (simp add: session_onmessage_def addTranscript_def Let_def split: option.splits)

text \<open>
  The session's \<^verbatim>\<open>onerror\<close> and \<^verbatim>\<open>onclose\<close> callbacks write a console line and
  nothing else.
\<close>

lemma session_error_no_teardown:
  "session_onerror w = w\<lparr> console := console w @ [''Session error:''] \<rparr>"
  "session_onclose w = w\<lparr> console := console w @ [''Session closed.''] \<rparr>"
  by (simp_all add: session_onerror_def session_onclose_def)

text \<open>
  The path that does release: \<^verbatim>\<open>stopConversation\<close> of a render in which
  \<^verbatim>\<open>isListening\<close> is true makes one release call for each object a ref holds (the two
  disconnects, the close of the input context, the stop of the tracks), asks for the
  session's close through the connect promise, clears the refs and stops listening; a
  second \<^verbatim>\<open>stopConversation\<close>, whatever it binds, makes no further call; and when
  the connect promise is fulfilled the session is closed, once.
\<close>

lemma stopConversation_releases:
  "audio_ops (stopConversation True w) =
     audio_ops w @
       map Disconnect (opt_list (scriptProcessor w)) @
       map Disconnect (opt_list (mediaStreamSource w)) @
       map ContextClose (opt_list (audioContext w)) @
       map TracksStop (opt_list (mediaStream w))"
  "close_requests (stopConversation True w) = close_requests w @ opt_list (sessionPromise w)"
  "sessionPromise (stopConversation True w) = None"
  "scriptProcessor (stopConversation True w) = None"
  "mediaStreamSource (stopConversation True w) = None"
  "audioContext (stopConversation True w) = None"
  "mediaStream (stopConversation True w) = None"
  "\<not> isListening (stopConversation True w)"
  "audio_ops (stopConversation again (stopConversation True w)) = audio_ops (stopConversation True w)"
  "close_requests (stopConversation again (stopConversation True w)) =
     close_requests (stopConversation True w)"
proof -
  show "audio_ops (stopConversation again (stopConversation True w)) =
      audio_ops (stopConversation True w)"
    "close_requests (stopConversation again (stopConversation True w)) =
      close_requests (stopConversation True w)"
    by (cases again;
        simp add: stopConversation_not_listening
          stopConversation_listening [of "stopConversation True w"];
        simp add: stopConversation_listening [of w] opt_list_def)+
qed (simp_all add: stopConversation_listening [of w])

lemma user_stop_example:
  "audio_ops (stopConversation True workshop_listening) =
     [Disconnect 6, Disconnect 5, ContextClose 3, TracksStop 4]"
  "close_requests (stopConversation True workshop_listening) = [2]"
  "audio_ops (connect_fulfilled 2 (stopConversation True workshop_listening)) =
     [Disconnect 6, Disconnect 5, ContextClose 3, TracksStop 4, SessionClose 2]"
  "close_requests (connect_fulfilled 2 (stopConversation True workshop_listening)) = []"
  by (simp_all add: connect_fulfilled_def stopConversation_releases workshop_listening_refs
      opt_list_def)

text \<open>
  C8 at failing inputs. A conversation is started from the initial state; the session's
  callbacks keep the environment \<open>voice_env\<close>, whose \<^verbatim>\<open>stopConversation\<close> binds
  \<^verbatim>\<open>isListening = false\<close>. (1) The session opens and the microphone is refused: the
  \<^verbatim>\<open>catch\<close> block shows its alert and calls \<^verbatim>\<open>stopConversation()\<close>, which returns
  at its guard. The input audio context created before the \<^verbatim>\<open>await\<close> is still held,
  the session is still held and not asked to close, no release call has been made and
  the component is still listening. (2) The microphone is given and the session's
  \<^verbatim>\<open>onerror\<close> runs: the stream, the two nodes and the context are still held, no
  release call has been made and the component is still listening. (3) The user stops
  the conversation and the connect promise is fulfilled: the four input objects and the
  session are released, each once, and the output audio context, created by
  \<^verbatim>\<open>startConversation\<close>, is not closed.
\<close>

theorem teardown_missed_on_failure_paths:
  "snd (startConversation False (Some ''key'') (render workshop_init) workshop_init) = Some voice_env \<and>
   \<not> env_isListening voice_env \<and>
   audioContext workshop_mic_refused = Some 3 \<and>
   sessionPromise workshop_mic_refused = Some 2 \<and>
   audio_ops workshop_mic_refused = [] \<and>
   close_requests workshop_mic_refused = [] \<and>
   isListening workshop_mic_refused \<and>
   alerts workshop_mic_refused = [mic_alert] \<and>
   audio_ops (session_onerror workshop_listening) = [] \<and>
   close_requests (session_onerror workshop_listening) = [] \<and>
   mediaStream (session_onerror workshop_listening) = Some 4 \<and>
   scriptProcessor (session_onerror workshop_listening) = Some 6 \<and>
   mediaStreamSource (session_onerror workshop_listening) = Some 5 \<and>
   audioContext (session_onerror workshop_listening) = Some 3 \<and>
   isListening (session_onerror workshop_listening) \<and>
   audio_ops (connect_fulfilled 2 (stopConversation True workshop_listening)) =
     [Disconnect 6, Disconnect 5, ContextClose 3, TracksStop 4, SessionClose 2] \<and>
   env_output voice_env = 1 \<and>
   ContextClose (env_output voice_env) \<notin>
     set (audio_ops (connect_fulfilled 2 (stopConversation True workshop_listening)))"
proof -
  have env: "snd (startConversation False (Some ''key'') (render workshop_init) workshop_init) =
      Some voice_env"
    "\<not> env_isListening voice_env" "env_output voice_env = 1"
    by (simp_all add: startConversation_def key_missing_def voice_env_def workshop_init_def)
  show ?thesis
    by (simp add: env workshop_mic_refused_refs session_error_no_teardown
        workshop_listening_refs user_stop_example)
qed

section \<open>Who writes the device state: results\<close>













section \<open>The network scanner: results\<close>

lemma read_show_nat: "read_nat (show_nat n) = n"
proof (induction n rule: show_nat.induct)
  case (1 n)
  show ?case
  proof (cases "n < 10")
    case True
    then show ?thesis
      by (subst show_nat.simps) (simp add: read_nat_def digit_char_def)
  next
    case False
    have d: "of_char (digit_char (n mod 10)) - 48 = n mod 10"
      by (simp add: digit_char_def)
    from False 1 have "read_nat (show_nat (n div 10)) = n div 10"
      by simp
    with False d show ?thesis
      by (subst show_nat.simps) (simp add: read_nat_def)
  qed
qed

lemma show_nat_inj: "show_nat m = show_nat n \<Longrightarrow> m = n"
  by (metis read_show_nat)

lemma address_distinct: "distinct (map (address base) [1..<255])"
  by (simp add: distinct_map inj_on_def address_def show_nat_inj)

subsection \<open>The steps of a sweep, one by one\<close>

lemma settle_probe_frame:
  "scan_fetches (settle_probe i st s) = scan_fetches s"
  "scan_now (settle_probe i st s) = scan_now s"
  "listening (settle_probe i st s) = listening s"
  "isScanning (settle_probe i st s) = isScanning s"
  "scanAbortControllerRef (settle_probe i st s) = scanAbortControllerRef s"
  "map probe_ip (probes (settle_probe i st s)) = map probe_ip (probes s)"
  "map probe_due (probes (settle_probe i st s)) = map probe_due (probes s)"
  by (simp_all add: settle_probe_def map_update list_update_same_conv)

lemma settle_probe_pending:
  assumes "st \<noteq> Pending"
  shows "set (pending (settle_probe i st s)) \<subseteq> set (pending s)"
proof
  fix p
  assume p: "p \<in> set (pending (settle_probe i st s))"
  show "p \<in> set (pending s)"
  proof (cases "i < length (probes s) \<and> probe_state (probes s ! i) = Pending")
    case True
    with p have "p \<in> set ((probes s)[i := (probes s ! i)\<lparr> probe_state := st \<rparr>])"
      and pend: "probe_state p = Pending"
      by (simp_all add: pending_def settle_probe_def)
    then have "p \<in> insert ((probes s ! i)\<lparr> probe_state := st \<rparr>) (set (probes s))"
      using set_update_subset_insert by fastforce
    with pend assms show ?thesis
      by (auto simp: pending_def)
  next
    case False
    with p show ?thesis
      by (simp add: settle_probe_def)
  qed
qed

lemma filter_update_other:
  "i < length xs \<Longrightarrow> \<not> Q (xs ! i) \<Longrightarrow>
   set (filter Q (xs[i := y])) = (if Q y then insert y (set (filter Q xs)) else set (filter Q xs))"
proof (induction xs arbitrary: i)
  case Nil
  then show ?case by simp
next
  case (Cons x xs)
  then show ?case
    by (cases i) auto
qed

lemma answered_ok_filter:
  "answered_ok s = probe_ip ` set (filter (\<lambda>p. probe_state p = Fulfilled True) (probes s))"
  by (simp add: answered_ok_def)

lemma settle_probe_results:
  assumes "st \<noteq> Pending" and "set (scanResults s) = answered_ok s"
  shows "set (scanResults (settle_probe i st s)) = answered_ok (settle_probe i st s)"
proof (cases "i < length (probes s) \<and> probe_state (probes s ! i) = Pending")
  case True
  let ?Q = "\<lambda>p. probe_state p = Fulfilled True"
  let ?y = "(probes s ! i)\<lparr> probe_state := st \<rparr>"
  from True have eq: "settle_probe i st s =
      s\<lparr> probes := (probes s)[i := ?y],
         scanResults := (if st = Fulfilled True then scanResults s @ [probe_ip (probes s ! i)]
                         else scanResults s),
         scanProgress := Suc (scanProgress s) \<rparr>"
    by (simp add: settle_probe_def)
  from True have "set (filter ?Q ((probes s)[i := ?y])) =
      (if ?Q ?y then insert ?y (set (filter ?Q (probes s))) else set (filter ?Q (probes s)))"
    by (intro filter_update_other) simp_all
  then have "answered_ok (settle_probe i st s) =
      (if st = Fulfilled True then insert (probe_ip (probes s ! i)) (answered_ok s) else answered_ok s)"
    by (simp add: answered_ok_filter eq)
  with assms(2) show ?thesis
    by (simp add: eq)
next
  case False
  then have "settle_probe i st s = s"
    by (auto simp: settle_probe_def)
  with assms(2) show ?thesis
    by simp
qed

lemma abort_where_frame:
  "scan_fetches (abort_where P s) = scan_fetches s"
  "scan_now (abort_where P s) = scan_now s"
  "listening (abort_where P s) = listening s"
  "isScanning (abort_where P s) = isScanning s"
  "scanAbortControllerRef (abort_where P s) = scanAbortControllerRef s"
  "scanResults (abort_where P s) = scanResults s"
  "map probe_ip (probes (abort_where P s)) = map probe_ip (probes s)"
  "map probe_due (probes (abort_where P s)) = map probe_due (probes s)"
  by (simp_all add: abort_where_def comp_def if_distrib [of probe_ip] if_distrib [of probe_due])

lemma abort_where_pending: "pending (abort_where P s) = filter (\<lambda>p. \<not> P p) (pending s)"
proof -
  have "filter (\<lambda>p. probe_state p = Pending)
      (map (\<lambda>p. if probe_state p = Pending \<and> P p then p\<lparr> probe_state := Rejected \<rparr> else p) xs) =
      filter (\<lambda>p. \<not> P p) (filter (\<lambda>p. probe_state p = Pending) xs)" for xs
    by (induction xs) auto
  then show ?thesis
    by (simp add: pending_def abort_where_def)
qed

lemma abort_where_answered: "answered_ok (abort_where P s) = answered_ok s"
proof -
  have "map probe_ip (filter (\<lambda>p. probe_state p = Fulfilled True)
      (map (\<lambda>p. if probe_state p = Pending \<and> P p then p\<lparr> probe_state := Rejected \<rparr> else p) xs)) =
      map probe_ip (filter (\<lambda>p. probe_state p = Fulfilled True) xs)" for xs
    by (induction xs) auto
  from arg_cong [OF this, of set "probes s"] show ?thesis
    by (simp add: answered_ok_def abort_where_def)
qed

lemma abort_where_none: "pending s = [] \<Longrightarrow> abort_where P s = s"
proof -
  assume "pending s = []"
  then have none: "\<forall>p \<in> set (probes s). probe_state p \<noteq> Pending"
    by (simp add: pending_def filter_empty_conv)
  then have "map (\<lambda>p. if probe_state p = Pending \<and> P p then p\<lparr> probe_state := Rejected \<rparr> else p) (probes s) =
      probes s"
    by (simp add: map_idI)
  moreover from none have "filter (\<lambda>p. probe_state p = Pending \<and> P p) (probes s) = []"
    by (simp add: filter_empty_conv)
  ultimately show ?thesis
    by (simp add: abort_where_def)
qed

lemma settle_probe_none: "pending s = [] \<Longrightarrow> settle_probe i st s = s"
  by (auto simp: settle_probe_def pending_def filter_empty_conv)

lemma all_settled_frame:
  "scan_fetches (all_settled s) = scan_fetches s"
  "scan_now (all_settled s) = scan_now s"
  "scanResults (all_settled s) = scanResults s"
  "probes (all_settled s) = probes s"
  "pending (all_settled s) = pending s"
  "answered_ok (all_settled s) = answered_ok s"
  "scanAbortControllerRef (all_settled s) = scanAbortControllerRef s"
  by (simp_all add: all_settled_def pending_def answered_ok_def)

lemma handleStopScan_cases:
  "handleStopScan s =
     (if scanAbortControllerRef s = Some False \<and> listening s
      then (abort_where (\<lambda>p. True) (s\<lparr> scanAbortControllerRef := Some True \<rparr>))\<lparr> isScanning := False \<rparr>
      else if scanAbortControllerRef s = Some False
      then s\<lparr> scanAbortControllerRef := Some True, isScanning := False \<rparr>
      else s\<lparr> isScanning := False \<rparr>)"
  by (simp add: handleStopScan_def Let_def split: option.splits bool.splits)

lemma answered_ok_cong: "probes s' = probes s \<Longrightarrow> answered_ok s' = answered_ok s"
  by (simp add: answered_ok_def)

lemma pending_cong: "probes s' = probes s \<Longrightarrow> pending s' = pending s"
  by (simp add: pending_def)

lemma handleStopScan_frame:
  "scan_fetches (handleStopScan s) = scan_fetches s"
  "scan_now (handleStopScan s) = scan_now s"
  "scanResults (handleStopScan s) = scanResults s"
  "answered_ok (handleStopScan s) = answered_ok s"
  "map probe_ip (probes (handleStopScan s)) = map probe_ip (probes s)"
  "map probe_due (probes (handleStopScan s)) = map probe_due (probes s)"
  "\<not> isScanning (handleStopScan s)"
  "listening (handleStopScan s) = listening s"
proof -
  have a: "answered_ok ((abort_where (\<lambda>p. True) (s\<lparr> scanAbortControllerRef := Some True \<rparr>))
      \<lparr> isScanning := False \<rparr>) = answered_ok s"
    using abort_where_answered [of "\<lambda>p. True" "s\<lparr> scanAbortControllerRef := Some True \<rparr>"]
    by (simp add: answered_ok_def)
  show "answered_ok (handleStopScan s) = answered_ok s"
    unfolding handleStopScan_cases using a by (simp add: answered_ok_def)
  show "scan_fetches (handleStopScan s) = scan_fetches s"
    "scan_now (handleStopScan s) = scan_now s"
    "scanResults (handleStopScan s) = scanResults s"
    "map probe_ip (probes (handleStopScan s)) = map probe_ip (probes s)"
    "map probe_due (probes (handleStopScan s)) = map probe_due (probes s)"
    "\<not> isScanning (handleStopScan s)"
    "listening (handleStopScan s) = listening s"
    by (simp_all add: handleStopScan_cases abort_where_frame)
qed

lemma handleStopScan_pending:
  "pending (handleStopScan s) =
     (if scanAbortControllerRef s = Some False \<and> listening s then [] else pending s)"
proof -
  have "pending ((abort_where (\<lambda>p. True) (s\<lparr> scanAbortControllerRef := Some True \<rparr>))
      \<lparr> isScanning := False \<rparr>) = []"
    using abort_where_pending [of "\<lambda>p. True" "s\<lparr> scanAbortControllerRef := Some True \<rparr>"]
    by (simp add: pending_def)
  then show ?thesis
    by (simp add: handleStopScan_cases pending_def)
qed

subsection \<open>The invariant of a sweep\<close>

lemma due_transfer:
  assumes "map probe_due xs = map probe_due ys" and "\<forall>p \<in> set ys. probe_due p = d"
  shows "\<forall>p \<in> set xs. probe_due p = d"
proof
  fix p
  assume "p \<in> set xs"
  then have "probe_due p \<in> set (map probe_due xs)"
    by simp
  with assms(1) have "probe_due p \<in> probe_due ` set ys"
    by simp
  with assms(2) show "probe_due p = d"
    by auto
qed

lemma scan_inv_start: "scan_inv (scan_now s0) (handleStartScan s0)"
proof -
  have pend: "pending (handleStartScan s0) = probes (handleStartScan s0)"
    by (simp add: pending_def handleStartScan_def filter_map comp_def)
  have nonempty: "probes (handleStartScan s0) \<noteq> []"
    by (simp add: handleStartScan_def)
  have none: "answered_ok (handleStartScan s0) = {}"
    by (auto simp: answered_ok_def handleStartScan_def)
  have due: "\<forall>p \<in> set (probes (handleStartScan s0)). probe_due p = scan_now s0 + 1500"
    by (auto simp: handleStartScan_def)
  have facts: "scanAbortControllerRef (handleStartScan s0) = Some False"
    "listening (handleStartScan s0)" "scanResults (handleStartScan s0) = []"
    "scan_now (handleStartScan s0) = scan_now s0"
    by (simp_all add: handleStartScan_def)
  show ?thesis
    unfolding scan_inv_def scan_pre_def pend
    using nonempty none due facts by simp
qed

lemma all_settled_inv:
  assumes "scan_pre t0 v"
  shows "scan_inv t0 (all_settled v)"
proof (cases "listening v \<and> pending v = []")
  case True
  then have eq: "all_settled v = v\<lparr> listening := False, isScanning := False \<rparr>"
    by (simp add: all_settled_def)
  have "pending (all_settled v) = []" "answered_ok (all_settled v) = answered_ok v"
    using True by (simp_all add: all_settled_frame)
  with assms show ?thesis
    by (simp add: scan_inv_def scan_pre_def eq)
next
  case False
  then have "all_settled v = v"
    by (auto simp: all_settled_def)
  with assms False show ?thesis
    by (auto simp: scan_inv_def scan_pre_def)
qed

lemma settle_probe_pre:
  assumes "scan_pre t0 s" and "st \<noteq> Pending"
  shows "scan_pre t0 (settle_probe i st s)"
proof -
  let ?u = "settle_probe i st s"
  note sub = settle_probe_pending [OF assms(2), of i s]
  have one: "pending ?u \<noteq> [] \<longrightarrow> scanAbortControllerRef ?u = Some False \<and> listening ?u"
  proof
    assume "pending ?u \<noteq> []"
    with sub have "pending s \<noteq> []"
      by auto
    with assms(1) show "scanAbortControllerRef ?u = Some False \<and> listening ?u"
      by (simp add: scan_pre_def settle_probe_frame)
  qed
  have two: "isScanning ?u \<longrightarrow> listening ?u"
    using assms(1) by (simp add: scan_pre_def settle_probe_frame)
  have three: "set (scanResults ?u) = answered_ok ?u"
    using assms by (intro settle_probe_results) (simp_all add: scan_pre_def)
  have four: "\<forall>p \<in> set (pending ?u). scan_now ?u < probe_due p"
    using assms(1) sub by (auto simp: scan_pre_def settle_probe_frame)
  have five: "\<forall>p \<in> set (probes ?u). probe_due p = t0 + 1500"
    using assms(1) by (intro due_transfer [OF settle_probe_frame(7)]) (simp add: scan_pre_def)
  from one two three four five show ?thesis
    unfolding scan_pre_def by blast
qed

lemma clock_pre:
  fixes t :: nat
  assumes "scan_pre t0 s"
  defines "s1 \<equiv> s\<lparr> scan_now := max (scan_now s) t \<rparr>"
  shows "scan_pre t0 (abort_where (\<lambda>p. probe_due p \<le> scan_now s1) s1)"
proof -
  let ?u = "abort_where (\<lambda>p. probe_due p \<le> scan_now s1) s1"
  have s1: "pending s1 = pending s" "answered_ok s1 = answered_ok s" "probes s1 = probes s"
    "scanResults s1 = scanResults s" "listening s1 = listening s" "isScanning s1 = isScanning s"
    "scanAbortControllerRef s1 = scanAbortControllerRef s"
    by (simp_all add: s1_def pending_def answered_ok_def)
  have pend: "pending ?u = filter (\<lambda>p. \<not> probe_due p \<le> scan_now s1) (pending s)"
    by (simp add: abort_where_pending s1(1))
  have one: "pending ?u \<noteq> [] \<longrightarrow> scanAbortControllerRef ?u = Some False \<and> listening ?u"
  proof
    assume "pending ?u \<noteq> []"
    then have "pending s \<noteq> []"
      unfolding pend by auto
    with assms(1) show "scanAbortControllerRef ?u = Some False \<and> listening ?u"
      by (simp add: scan_pre_def abort_where_frame s1)
  qed
  have two: "isScanning ?u \<longrightarrow> listening ?u"
    using assms(1) by (simp add: scan_pre_def abort_where_frame s1)
  have three: "set (scanResults ?u) = answered_ok ?u"
    using assms(1) by (simp add: scan_pre_def abort_where_frame abort_where_answered s1)
  have four: "\<forall>p \<in> set (pending ?u). scan_now ?u < probe_due p"
    unfolding pend by (auto simp: abort_where_frame)
  have "\<forall>p \<in> set (probes s1). probe_due p = t0 + 1500"
    using assms(1) by (simp add: scan_pre_def s1)
  then have five: "\<forall>p \<in> set (probes ?u). probe_due p = t0 + 1500"
    by (rule due_transfer [OF abort_where_frame(8)])
  from one two three four five show ?thesis
    unfolding scan_pre_def by blast
qed

lemma handleStopScan_pre:
  assumes "scan_pre t0 s"
  shows "scan_pre t0 (handleStopScan s)" and "pending (handleStopScan s) = []"
proof -
  let ?u = "handleStopScan s"
  show none: "pending ?u = []"
    using assms by (auto simp: handleStopScan_pending scan_pre_def)
  have three: "set (scanResults ?u) = answered_ok ?u"
    using assms by (simp add: scan_pre_def handleStopScan_frame)
  have "\<forall>p \<in> set (probes s). probe_due p = t0 + 1500"
    using assms by (simp add: scan_pre_def)
  then have five: "\<forall>p \<in> set (probes ?u). probe_due p = t0 + 1500"
    by (rule due_transfer [OF handleStopScan_frame(6)])
  from none three five handleStopScan_frame(7) [of s] show "scan_pre t0 ?u"
    unfolding scan_pre_def by simp
qed

lemma scan_step_inv:
  assumes "scan_inv t0 s"
  shows "scan_inv t0 (scan_step e s)"
proof -
  from assms have pre: "scan_pre t0 s"
    by (simp add: scan_inv_def)
  show ?thesis
  proof (cases e)
    case (ProbeResponse i ok)
    then show ?thesis
      using settle_probe_pre [OF pre, of "Fulfilled ok" i] by (simp add: all_settled_inv)
  next
    case (ProbeError i)
    then show ?thesis
      using settle_probe_pre [OF pre, of Rejected i] by (simp add: all_settled_inv)
  next
    case (Clock t)
    then show ?thesis
      using clock_pre [OF pre, of t] by (simp add: all_settled_inv Let_def)
  next
    case StopClick
    then show ?thesis
      using handleStopScan_pre(1) [OF pre] by (simp add: all_settled_inv)
  qed
qed

lemma scan_step_frame:
  "scan_fetches (scan_step e s) = scan_fetches s"
  "map probe_ip (probes (scan_step e s)) = map probe_ip (probes s)"
  by (cases e; simp add: all_settled_frame settle_probe_frame abort_where_frame
      handleStopScan_frame Let_def)+

lemma scan_run_inv: "scan_inv t0 s \<Longrightarrow> scan_inv t0 (scan_run evs s)"
  by (induction evs arbitrary: s) (simp_all add: scan_step_inv)

lemma scan_run_frame:
  "scan_fetches (scan_run evs s) = scan_fetches s"
  "map probe_ip (probes (scan_run evs s)) = map probe_ip (probes s)"
  by (induction evs arbitrary: s) (simp_all add: scan_step_frame)

subsection \<open>After the abort\<close>

lemma scan_step_quiet:
  assumes "pending v = []"
  shows "pending (scan_step e v) = []"
    and "scanResults (scan_step e v) = scanResults v"
    and "\<not> isScanning v \<Longrightarrow> \<not> isScanning (scan_step e v)"
proof -
  have clock: "abort_where P (v\<lparr> scan_now := n \<rparr>) = v\<lparr> scan_now := n \<rparr>" for P n
    using assms by (intro abort_where_none) (simp add: pending_def)
  have stop: "pending (handleStopScan v) = []"
    using assms by (simp add: handleStopScan_pending)
  show "pending (scan_step e v) = []"
    using assms stop
    by (cases e) (simp_all add: all_settled_frame settle_probe_none clock Let_def pending_def)
  show "scanResults (scan_step e v) = scanResults v"
    using assms
    by (cases e) (simp_all add: all_settled_frame settle_probe_none clock Let_def
        handleStopScan_frame)
  show "\<not> isScanning v \<Longrightarrow> \<not> isScanning (scan_step e v)"
    using assms
    by (cases e) (simp_all add: all_settled_def settle_probe_none clock Let_def
        handleStopScan_frame)
qed

lemma scan_run_quiet:
  assumes "pending v = []"
  shows "pending (scan_run evs v) = [] \<and> scanResults (scan_run evs v) = scanResults v \<and>
     (\<not> isScanning v \<longrightarrow> \<not> isScanning (scan_run evs v))"
  using assms
proof (induction evs arbitrary: v)
  case Nil
  then show ?case by simp
next
  case (Cons e evs)
  from Cons.IH [OF scan_step_quiet(1) [OF Cons.prems, of e]]
    scan_step_quiet(2,3) [OF Cons.prems, of e]
  show ?case
    by auto
qed

subsection \<open>The results follow the events\<close>

lemma settle_probe_cases:
  "settle_probe i st s =
     (if i < length (probes s) \<and> probe_state (probes s ! i) = Pending
      then s\<lparr> probes := (probes s)[i := (probes s ! i)\<lparr> probe_state := st \<rparr>],
             scanResults := (if st = Fulfilled True then scanResults s @ [probe_ip (probes s ! i)]
                             else scanResults s),
             scanProgress := Suc (scanProgress s) \<rparr>
      else s)"
  by (simp add: settle_probe_def)

lemma pending_empty_iff:
  "pending s = [] \<longleftrightarrow> (\<forall>i < length (probes s). probe_state (probes s ! i) \<noteq> Pending)"
  by (simp add: pending_def filter_empty_conv all_set_conv_all_nth)

lemma tracks_start: "tracks (scan_now s0) {} False (handleStartScan s0)"
  by (simp add: tracks_def handleStartScan_def)

lemma tracks_settle:
  assumes tr: "tracks t0 settled halted s" and st: "st \<noteq> Pending"
  shows "tracks t0 (insert i settled) halted (all_settled (settle_probe i st s))"
proof -
  have probes: "probes (all_settled (settle_probe i st s)) = probes (settle_probe i st s)"
    and clock: "scan_now (all_settled (settle_probe i st s)) = scan_now s"
    by (simp_all add: all_settled_frame settle_probe_frame)
  show ?thesis
  proof (cases "i < length (probes s) \<and> probe_state (probes s ! i) = Pending")
    case True
    then have "probes (settle_probe i st s) = (probes s)[i := (probes s ! i)\<lparr> probe_state := st \<rparr>]"
      by (simp add: settle_probe_cases)
    with tr st True show ?thesis
      unfolding tracks_def probes clock by (auto simp: nth_list_update)
  next
    case False
    then have "settle_probe i st s = s"
      by (auto simp: settle_probe_cases)
    with tr False show ?thesis
      unfolding tracks_def probes clock by auto
  qed
qed

lemma results_settle:
  assumes tr: "tracks t0 settled halted s"
    and ips: "map probe_ip (probes s) = map (address b) [1..<255]"
  shows "scanResults (all_settled (settle_probe i (Fulfilled ok) s)) =
     scanResults s @
       map (\<lambda>k. address b (Suc k)) (if i < 254 \<and> i \<notin> settled \<and> \<not> halted \<and> ok then [i] else [])"
    and "scanResults (all_settled (settle_probe i Rejected s)) = scanResults s"
proof -
  from ips have len: "length (probes s) = 254"
    using length_map [of probe_ip "probes s"] by simp
  have ip: "probe_ip (probes s ! i) = address b (Suc i)" if "i < 254"
  proof -
    from that len have "probe_ip (probes s ! i) = map probe_ip (probes s) ! i"
      by simp
    also have "\<dots> = address b (Suc i)"
      using that by (simp add: ips)
    finally show ?thesis .
  qed
  from tr len have pend: "(probe_state (probes s ! i) = Pending) = (\<not> halted \<and> i \<notin> settled)"
    if "i < 254"
    using that by (simp add: tracks_def)
  show "scanResults (all_settled (settle_probe i (Fulfilled ok) s)) =
     scanResults s @
       map (\<lambda>k. address b (Suc k)) (if i < 254 \<and> i \<notin> settled \<and> \<not> halted \<and> ok then [i] else [])"
    using len ip pend by (cases "i < 254") (auto simp: all_settled_frame settle_probe_cases)
  show "scanResults (all_settled (settle_probe i Rejected s)) = scanResults s"
    by (simp add: all_settled_frame settle_probe_cases)
qed

lemma tracks_clock:
  fixes t :: nat
  assumes tr: "tracks t0 settled halted s"
    and due: "\<forall>p \<in> set (probes s). probe_due p = t0 + 1500"
  defines "s1 \<equiv> s\<lparr> scan_now := max (scan_now s) t \<rparr>"
  shows "tracks t0 settled (halted \<or> t0 + 1500 \<le> t)
     (all_settled (abort_where (\<lambda>p. probe_due p \<le> scan_now s1) s1))"
proof -
  let ?u = "all_settled (abort_where (\<lambda>p. probe_due p \<le> scan_now s1) s1)"
  have probes: "probes ?u =
      map (\<lambda>p. if probe_state p = Pending \<and> probe_due p \<le> max (scan_now s) t
                then p\<lparr> probe_state := Rejected \<rparr> else p) (probes s)"
    by (simp add: all_settled_frame abort_where_def s1_def)
  have clock: "scan_now ?u = max (scan_now s) t"
    by (simp add: all_settled_frame abort_where_frame s1_def)
  have state: "(probe_state (probes ?u ! i) = Pending) =
      (probe_state (probes s ! i) = Pending \<and> \<not> t0 + 1500 \<le> max (scan_now s) t)"
    if "i < length (probes s)" for i
  proof -
    from that due have "probe_due (probes s ! i) = t0 + 1500"
      by simp
    with that show ?thesis
      by (auto simp: probes)
  qed
  have len: "length (probes ?u) = length (probes s)"
    by (simp add: probes)
  show ?thesis
    unfolding tracks_def len clock
    using tr state by (auto simp: tracks_def)
qed

lemma tracks_stop:
  assumes "scan_pre t0 s"
  shows "tracks t0 settled True (all_settled (handleStopScan s))"
proof -
  have "pending (all_settled (handleStopScan s)) = []"
    using handleStopScan_pre(2) [OF assms] by (simp add: all_settled_frame)
  then show ?thesis
    by (simp add: tracks_def pending_empty_iff)
qed

lemma results_follow_events:
  assumes "scan_inv t0 s" and "tracks t0 settled halted s"
    and "map probe_ip (probes s) = map (address b) [1..<255]"
  shows "scanResults (scan_run evs s) =
     scanResults s @ map (\<lambda>k. address b (Suc k)) (ok_answers t0 settled halted evs)"
  using assms
proof (induction evs arbitrary: s settled halted)
  case Nil
  then show ?case by simp
next
  case (Cons e evs)
  note inv = scan_step_inv [OF Cons.prems(1), of e]
  have ips: "map probe_ip (probes (scan_step e s)) = map (address b) [1..<255]"
    using Cons.prems(3) by (simp add: scan_step_frame)
  from Cons.prems(1) have pre: "scan_pre t0 s"
    by (simp add: scan_inv_def)
  then have due: "\<forall>p \<in> set (probes s). probe_due p = t0 + 1500"
    by (simp add: scan_pre_def)
  show ?case
  proof (cases e)
    case (ProbeResponse i ok)
    have tr: "tracks t0 (insert i settled) halted (scan_step e s)"
      using tracks_settle [OF Cons.prems(2), of "Fulfilled ok" i] ProbeResponse by simp
    from Cons.IH [OF inv tr ips] results_settle(1) [OF Cons.prems(2,3), of i ok] ProbeResponse
    show ?thesis
      by simp
  next
    case (ProbeError i)
    have tr: "tracks t0 (insert i settled) halted (scan_step e s)"
      using tracks_settle [OF Cons.prems(2), of Rejected i] ProbeError by simp
    from Cons.IH [OF inv tr ips] results_settle(2) [OF Cons.prems(2,3), of i] ProbeError
    show ?thesis
      by simp
  next
    case (Clock t)
    have tr: "tracks t0 settled (halted \<or> t0 + 1500 \<le> t) (scan_step e s)"
      using tracks_clock [OF Cons.prems(2) due, of t] Clock by (simp add: Let_def)
    have "scanResults (scan_step e s) = scanResults s"
      using Clock by (simp add: Let_def all_settled_frame abort_where_frame)
    with Cons.IH [OF inv tr ips] Clock show ?thesis
      by simp
  next
    case StopClick
    have tr: "tracks t0 settled True (scan_step e s)"
      using tracks_stop [OF pre, of settled] StopClick by simp
    have "scanResults (scan_step e s) = scanResults s"
      using StopClick by (simp add: all_settled_frame handleStopScan_frame)
    with Cons.IH [OF inv tr ips] StopClick show ?thesis
      by simp
  qed
qed

lemma sweep_results:
  "scanResults (scan_run evs (handleStartScan s0)) =
     map (\<lambda>k. address (scanIpBase s0) (Suc k)) (ok_answers (scan_now s0) {} False evs)"
proof -
  have "map probe_ip (probes (handleStartScan s0)) = map (address (scanIpBase s0)) [1..<255]"
    by (simp add: handleStartScan_def comp_def)
  from results_follow_events [OF scan_inv_start tracks_start this, of evs]
  show ?thesis
    by (simp add: handleStartScan_def)
qed

lemma scan_step_now:
  "scan_now (scan_step e s) = (case e of Clock t \<Rightarrow> max (scan_now s) t | _ \<Rightarrow> scan_now s)"
  by (cases e) (simp_all add: all_settled_frame settle_probe_frame abort_where_frame
      handleStopScan_frame Let_def)

lemma show_nat_7: "show_nat 7 = ''7''"
  by code_simp

lemma first_answer:
  "scanResults (scan_run [ProbeResponse 6 True] (handleStartScan scanner_init)) = [''192.168.1.7'']"
  by (simp add: settle_probe_def handleStartScan_def scanner_init_def all_settled_frame
      address_def show_nat_7)

text \<open>
  C4: a sweep was started and any events \<open>earlier\<close> have happened; the user clicks Stop.
  Right after the click no probe is pending: every probe still outstanding has been
  aborted. Whatever events come \<open>later\<close>, no probe is pending, the requests made are the
  requests made before the click (no new probe is started), the results are the
  addresses collected at the moment of the click, and the scanner is not scanning.
\<close>

theorem stop_scan_halts_sweep:
  "pending (scan_step StopClick (scan_run earlier (handleStartScan s0))) = [] \<and>
   pending (scan_run later (scan_step StopClick (scan_run earlier (handleStartScan s0)))) = [] \<and>
   scan_fetches (scan_run later (scan_step StopClick (scan_run earlier (handleStartScan s0)))) =
     scan_fetches (scan_run earlier (handleStartScan s0)) \<and>
   scanResults (scan_run later (scan_step StopClick (scan_run earlier (handleStartScan s0)))) =
     scanResults (scan_run earlier (handleStartScan s0)) \<and>
   \<not> isScanning (scan_run later (scan_step StopClick (scan_run earlier (handleStartScan s0))))"
proof -
  let ?s = "scan_run earlier (handleStartScan s0)"
  let ?u = "scan_step StopClick ?s"
  have "scan_inv (scan_now s0) ?s"
    by (intro scan_run_inv scan_inv_start)
  then have pre: "scan_pre (scan_now s0) ?s"
    by (simp add: scan_inv_def)
  have none: "pending ?u = []"
    using handleStopScan_pre(2) [OF pre] by (simp add: all_settled_frame)
  have res: "scanResults ?u = scanResults ?s"
    by (simp add: all_settled_frame handleStopScan_frame)
  have idle: "\<not> isScanning ?u"
    by (simp add: all_settled_def handleStopScan_frame)
  from scan_run_quiet [OF none, of later] none res idle show ?thesis
    by (simp add: scan_run_frame all_settled_frame handleStopScan_frame)
qed

theorem stop_scan_halts_sweep_witness:
  "pending (scan_step StopClick (scan_run [ProbeResponse 6 True] (handleStartScan scanner_init))) = [] \<and>
   scanResults (scan_run [ProbeResponse 20 True, Clock 5000]
      (scan_step StopClick (scan_run [ProbeResponse 6 True] (handleStartScan scanner_init)))) =
     [''192.168.1.7''] \<and>
   \<not> isScanning (scan_run [ProbeResponse 20 True, Clock 5000]
      (scan_step StopClick (scan_run [ProbeResponse 6 True] (handleStartScan scanner_init))))"
  using stop_scan_halts_sweep [of "[ProbeResponse 6 True]" scanner_init "[ProbeResponse 20 True, Clock 5000]"]
    first_answer
  by (simp del: scan_step.simps scan_run.simps)

lemma show_nat_1: "show_nat 1 = ''1''"
  by code_simp

text \<open>
  C5: at every moment of a sweep started from \<open>s0\<close>, and so when it has run to
  completion: the requests made are those made before the sweep followed by one
  \<^verbatim>\<open>GET http://base.i/status\<close> for each \<open>i\<close> from 1 to 254, in this order and no
  other (nothing is requested again); the 254 addresses differ from one another, and the
  probes are the probes of these addresses; every probe's timer is due 1500 ms after the
  start, and once the clock has reached that time no probe is pending; the results are
  exactly the addresses \<^verbatim>\<open>base.(i+1)\<close> of the probes \<open>i\<close> that the events answer with an
  ok response (as their first outcome, before a Stop click and before the timeout), in
  the order of the responses; the set of the results is the set of the addresses of the
  probes in the state fulfilled-ok; and when no probe is pending the scanner is not
  scanning.
\<close>

theorem sweep_probes_each_address_once:
  "scan_fetches (scan_run evs (handleStartScan s0)) =
     scan_fetches s0 @ map (status_url (scanIpBase s0)) [1..<255] \<and>
   length (map (status_url (scanIpBase s0)) [1..<255]) = 254 \<and>
   map probe_ip (probes (scan_run evs (handleStartScan s0))) =
     map (address (scanIpBase s0)) [1..<255] \<and>
   distinct (map (address (scanIpBase s0)) [1..<255]) \<and>
   list_all (\<lambda>p. probe_due p = scan_now s0 + 1500) (probes (scan_run evs (handleStartScan s0))) \<and>
   (scan_now s0 + 1500 \<le> scan_now (scan_run evs (handleStartScan s0)) \<longrightarrow>
      pending (scan_run evs (handleStartScan s0)) = []) \<and>
   scanResults (scan_run evs (handleStartScan s0)) =
     map (\<lambda>k. address (scanIpBase s0) (Suc k)) (ok_answers (scan_now s0) {} False evs) \<and>
   set (scanResults (scan_run evs (handleStartScan s0))) =
     answered_ok (scan_run evs (handleStartScan s0)) \<and>
   (pending (scan_run evs (handleStartScan s0)) = [] \<longrightarrow>
      \<not> isScanning (scan_run evs (handleStartScan s0)))"
proof -
  let ?s = "scan_run evs (handleStartScan s0)"
  have inv: "scan_inv (scan_now s0) ?s"
    by (intro scan_run_inv scan_inv_start)
  have fetches: "scan_fetches ?s = scan_fetches s0 @ map (status_url (scanIpBase s0)) [1..<255]"
    by (simp add: scan_run_frame handleStartScan_def)
  have ips: "map probe_ip (probes ?s) = map (address (scanIpBase s0)) [1..<255]"
    by (simp add: scan_run_frame handleStartScan_def comp_def)
  have due: "list_all (\<lambda>p. probe_due p = scan_now s0 + 1500) (probes ?s)"
    using inv by (simp add: scan_inv_def scan_pre_def list_all_iff)
  have bounded: "scan_now s0 + 1500 \<le> scan_now ?s \<longrightarrow> pending ?s = []"
  proof
    assume late: "scan_now s0 + 1500 \<le> scan_now ?s"
    show "pending ?s = []"
    proof (rule ccontr)
      assume "pending ?s \<noteq> []"
      then obtain p where p: "p \<in> set (pending ?s)"
        by (cases "pending ?s") auto
      then have "p \<in> set (probes ?s)"
        by (simp add: pending_def)
      moreover from inv have "\<forall>q \<in> set (pending ?s). scan_now ?s < probe_due q"
        and "\<forall>q \<in> set (probes ?s). probe_due q = scan_now s0 + 1500"
        by (simp_all add: scan_inv_def scan_pre_def)
      ultimately have "scan_now ?s < probe_due p" "probe_due p = scan_now s0 + 1500"
        using p by blast+
      with late show False
        by simp
    qed
  qed
  have results: "set (scanResults ?s) = answered_ok ?s"
    using inv by (simp add: scan_inv_def scan_pre_def)
  have finished: "pending ?s = [] \<longrightarrow> \<not> isScanning ?s"
    using inv by (auto simp: scan_inv_def scan_pre_def)
  from fetches ips due bounded results finished address_distinct [of "scanIpBase s0"]
    sweep_results [of evs s0]
  show ?thesis
    by simp
qed

theorem sweep_probes_each_address_once_witness:
  "scan_now scanner_init + 1500 \<le> scan_now (scan_run sweep_events (handleStartScan scanner_init)) \<and>
   pending (scan_run sweep_events (handleStartScan scanner_init)) = [] \<and>
   \<not> isScanning (scan_run sweep_events (handleStartScan scanner_init)) \<and>
   scanResults (scan_run sweep_events (handleStartScan scanner_init)) =
     [''192.168.1.7'', ''192.168.1.1''] \<and>
   answered_ok (scan_run sweep_events (handleStartScan scanner_init)) =
     {''192.168.1.7'', ''192.168.1.1''} \<and>
   length (scan_fetches (scan_run sweep_events (handleStartScan scanner_init))) = 254"
proof -
  let ?s = "scan_run sweep_events (handleStartScan scanner_init)"
  have late: "scan_now scanner_init + 1500 \<le> scan_now ?s"
    by (simp add: sweep_events_def scan_step_now handleStartScan_def scanner_init_def
        del: scan_step.simps)
  have start: "scan_fetches scanner_init = []" "scanIpBase scanner_init = ''192.168.1''"
    "scan_now scanner_init = 0"
    by (simp_all add: scanner_init_def)
  have answers: "ok_answers 0 {} False sweep_events = [6, 0]"
    by (simp add: sweep_events_def)
  have names: "address ''192.168.1'' 7 = ''192.168.1.7''"
    "address ''192.168.1'' (Suc 0) = ''192.168.1.1''"
    using show_nat_7 show_nat_1 by (simp_all add: address_def)
  note all = sweep_probes_each_address_once [of sweep_events scanner_init]
  from all have requests: "scan_fetches ?s =
      scan_fetches scanner_init @ map (status_url (scanIpBase scanner_init)) [1..<255]"
    and bounded: "scan_now scanner_init + 1500 \<le> scan_now ?s \<longrightarrow> pending ?s = []"
    and listed: "scanResults ?s =
      map (\<lambda>k. address (scanIpBase scanner_init) (Suc k))
        (ok_answers (scan_now scanner_init) {} False sweep_events)"
    and same: "set (scanResults ?s) = answered_ok ?s"
    and finished: "pending ?s = [] \<longrightarrow> \<not> isScanning ?s"
    by blast+
  from bounded late have none: "pending ?s = []"
    by blast
  with finished have idle: "\<not> isScanning ?s"
    by blast
  from listed have results: "scanResults ?s = [''192.168.1.7'', ''192.168.1.1'']"
    by (simp add: start answers names)
  from same results have ok: "answered_ok ?s = {''192.168.1.7'', ''192.168.1.1''}"
    by simp
  from requests have count: "length (scan_fetches ?s) = 254"
    by (simp only: start append_Nil length_map length_upt)
  from late none idle results ok count show ?thesis
    by blast
qed


end
